theory Spec2Isabelle
  imports Complex_Main "HOL-Library.AList"
begin

section \<open>Data model of the epidemic simulation front end\<close>

text \<open>
  The development embeds \<^verbatim>\<open>src/frontend/script.js\<close> and
  \<^verbatim>\<open>src/frontend/realtime-chart.js\<close>. JavaScript numbers are idealised:
  counters and indices are natural numbers, coordinates, rates, timestamps and random
  draws are reals. The compartment strings \<^verbatim>\<open>'healthy'\<close>, \<^verbatim>\<open>'infected'\<close>,
  \<^verbatim>\<open>'recovered'\<close>, \<^verbatim>\<open>'quarantined'\<close>, \<^verbatim>\<open>'deceased'\<close> are the only ones the local
  simulation ever assigns and are a datatype here.
\<close>

datatype compartment = Healthy | Infected | Recovered | Quarantined | Deceased

text \<open>
  A node object. The field \<^verbatim>\<open>id\<close> is \<open>node_id\<close>, \<^verbatim>\<open>x\<close> and \<^verbatim>\<open>y\<close> are
  \<open>xpos\<close> and \<open>ypos\<close>. \<^verbatim>\<open>originalX\<close>/\<^verbatim>\<open>originalY\<close> are \<open>None\<close> when
  \<^verbatim>\<open>undefined\<close>. The counters are assigned 0 by \<^verbatim>\<open>startFallbackSimulation\<close> before
  the first local step reads them.
\<close>

record node =
  node_id :: nat
  xpos :: real
  ypos :: real
  state :: compartment
  infectionTime :: nat
  quarantineTime :: nat
  originalX :: "real option"
  originalY :: "real option"

record edge =
  source :: nat
  target :: nat

record animation =
  startX :: real
  startY :: real
  targetX :: real
  targetY :: real
  startTime :: real
  duration :: real

text \<open>The argument of \<^verbatim>\<open>addDataPoint\<close>: the last two keys may be missing.\<close>

record stats =
  healthy :: nat
  infected :: nat
  recovered :: nat
  quarantined :: "nat option"
  deceased :: "nat option"

record chartData =
  healthy_series :: "nat list"
  infected_series :: "nat list"
  recovered_series :: "nat list"
  quarantined_series :: "nat list"
  deceased_series :: "nat list"
  timestamps :: "nat list"

record RealtimeChart =
  maxDataPoints :: nat
  data :: chartData

text \<open>
  \<^verbatim>\<open>Math.random()\<close> is an infinite supply of draws; a draw takes the head and leaves
  the rest.
\<close>

type_synonym rng = "nat \<Rightarrow> real"

definition Math_random :: "rng \<Rightarrow> real" where
  "Math_random g = g 0"

definition rng_next :: "rng \<Rightarrow> rng" where
  "rng_next g = (\<lambda>k. g (Suc k))"

text \<open>The supply whose every draw is \<open>c\<close>.\<close>

definition constant_draws :: "real \<Rightarrow> rng" where
  "constant_draws c = (\<lambda>k. c)"

text \<open>
  The globals \<^verbatim>\<open>simulation\<close>, \<^verbatim>\<open>nodeAnimations\<close> (a \<^verbatim>\<open>Map\<close>, kept in insertion
  order) and \<^verbatim>\<open>realtimeChart\<close>, together with the random source.
\<close>

record world =
  running :: bool
  nodes :: "node list"
  edges :: "edge list"
  step :: nat
  day :: nat
  backendConnected :: bool
  infectionRate :: real
  recoveryRate :: real
  deathRate :: real
  quarantineRate :: real
  nodeAnimations :: "(nat \<times> animation) list"
  realtimeChart :: RealtimeChart
  random_source :: rng

datatype error = TypeError

section \<open>The telemetry chart\<close>

definition emptyData :: chartData where
  "emptyData = \<lparr>healthy_series = [], infected_series = [], recovered_series = [],
     quarantined_series = [], deceased_series = [], timestamps = []\<rparr>"

text \<open>The constructor; \<^verbatim>\<open>maxDataPoints\<close> defaults to 100.\<close>

definition newChart :: "nat \<Rightarrow> RealtimeChart" where
  "newChart w = \<lparr>maxDataPoints = w, data = emptyData\<rparr>"

definition defaultChart :: RealtimeChart where
  "defaultChart = newChart 100"

text \<open>\<^verbatim>\<open>v || 0\<close> on a count that may be missing.\<close>

definition or_zero :: "nat option \<Rightarrow> nat" where
  "or_zero v = (case v of None \<Rightarrow> 0 | Some k \<Rightarrow> k)"

definition push_point :: "stats \<Rightarrow> nat \<Rightarrow> chartData \<Rightarrow> chartData" where
  "push_point s stp d =
     \<lparr>healthy_series = healthy_series d @ [healthy s],
      infected_series = infected_series d @ [infected s],
      recovered_series = recovered_series d @ [recovered s],
      quarantined_series = quarantined_series d @ [or_zero (quarantined s)],
      deceased_series = deceased_series d @ [or_zero (deceased s)],
      timestamps = timestamps d @ [stp]\<rparr>"

text \<open>\<^verbatim>\<open>Array.prototype.shift\<close> on every series; on an empty array it does nothing.\<close>

definition shift_all :: "chartData \<Rightarrow> chartData" where
  "shift_all d =
     \<lparr>healthy_series = tl (healthy_series d),
      infected_series = tl (infected_series d),
      recovered_series = tl (recovered_series d),
      quarantined_series = tl (quarantined_series d),
      deceased_series = tl (deceased_series d),
      timestamps = tl (timestamps d)\<rparr>"

definition addDataPoint :: "stats \<Rightarrow> nat \<Rightarrow> RealtimeChart \<Rightarrow> RealtimeChart" where
  "addDataPoint s stp c =
     (let d = push_point s stp (data c)
      in c\<lparr>data := (if length (healthy_series d) > maxDataPoints c then shift_all d else d)\<rparr>)"

definition clear :: "RealtimeChart \<Rightarrow> RealtimeChart" where
  "clear c = c\<lparr>data := emptyData\<rparr>"

text \<open>A sequence of \<^verbatim>\<open>addDataPoint\<close> calls, oldest first.\<close>

fun addDataPoints :: "(stats \<times> nat) list \<Rightarrow> RealtimeChart \<Rightarrow> RealtimeChart" where
  "addDataPoints [] c = c"
| "addDataPoints (p # ps) c = addDataPoints ps (addDataPoint (fst p) (snd p) c)"

text \<open>The window the claim speaks of: the last \<open>w\<close> entries of a list, in order.\<close>

definition most_recent :: "nat \<Rightarrow> 'a list \<Rightarrow> 'a list" where
  "most_recent w xs = drop (length xs - w) xs"

text \<open>What the claim expects the chart to hold after the calls \<open>ps\<close>.\<close>

definition window_of :: "nat \<Rightarrow> (stats \<times> nat) list \<Rightarrow> chartData" where
  "window_of w ps =
     \<lparr>healthy_series = most_recent w (map (\<lambda>p. healthy (fst p)) ps),
      infected_series = most_recent w (map (\<lambda>p. infected (fst p)) ps),
      recovered_series = most_recent w (map (\<lambda>p. recovered (fst p)) ps),
      quarantined_series = most_recent w (map (\<lambda>p. or_zero (quarantined (fst p))) ps),
      deceased_series = most_recent w (map (\<lambda>p. or_zero (deceased (fst p))) ps),
      timestamps = most_recent w (map snd ps)\<rparr>"

section \<open>Quarantine relocation animations\<close>

definition ANIMATION_DURATION :: real where
  "ANIMATION_DURATION = 1000"

definition QUARANTINE_AREA_x :: real where "QUARANTINE_AREA_x = 0.7"
definition QUARANTINE_AREA_y :: real where "QUARANTINE_AREA_y = 0.7"
definition QUARANTINE_AREA_width :: real where "QUARANTINE_AREA_width = 0.25"
definition QUARANTINE_AREA_height :: real where "QUARANTINE_AREA_height = 0.25"

text \<open>\<^verbatim>\<open>!v\<close> on a coordinate that may be \<^verbatim>\<open>undefined\<close>: true for \<^verbatim>\<open>undefined\<close> and for 0.\<close>

definition falsy :: "real option \<Rightarrow> bool" where
  "falsy v = (case v of None \<Rightarrow> True | Some r \<Rightarrow> r = 0)"

text \<open>\<^verbatim>\<open>Date.now()\<close> is the argument \<open>now\<close>.\<close>

definition startQuarantineAnimation ::
  "real \<Rightarrow> node \<Rightarrow> (nat \<times> animation) list \<Rightarrow> node \<times> (nat \<times> animation) list" where
  "startQuarantineAnimation now n anims =
     (let n1 = (if falsy (originalX n) \<or> falsy (originalY n)
                then n\<lparr>originalX := Some (xpos n), originalY := Some (ypos n)\<rparr> else n);
          tX = QUARANTINE_AREA_x + real (node_id n1 mod 10) * (QUARANTINE_AREA_width / 10)
                 + QUARANTINE_AREA_width * 0.05;
          tY = QUARANTINE_AREA_y + real ((node_id n1 mod 100) div 10) * (QUARANTINE_AREA_height / 10)
                 + QUARANTINE_AREA_height * 0.05;
          finalX = min (QUARANTINE_AREA_x + QUARANTINE_AREA_width - 0.01)
                       (max (QUARANTINE_AREA_x + 0.01) tX);
          finalY = min (QUARANTINE_AREA_y + QUARANTINE_AREA_height - 0.01)
                       (max (QUARANTINE_AREA_y + 0.01) tY)
      in (n1, AList.update (node_id n1)
                \<lparr>startX = xpos n1, startY = ypos n1, targetX = finalX, targetY = finalY,
                 startTime = now, duration = ANIMATION_DURATION\<rparr> anims))"

definition endQuarantineAnimation ::
  "real \<Rightarrow> node \<Rightarrow> (nat \<times> animation) list \<Rightarrow> (nat \<times> animation) list" where
  "endQuarantineAnimation now n anims =
     (case originalX n of
        None \<Rightarrow> anims
      | Some ox \<Rightarrow>
          (case originalY n of
             None \<Rightarrow> anims
           | Some oy \<Rightarrow>
               AList.update (node_id n)
                 \<lparr>startX = xpos n, startY = ypos n, targetX = ox, targetY = oy,
                  startTime = now, duration = ANIMATION_DURATION\<rparr> anims))"

text \<open>The easing expression \<^verbatim>\<open>1 - Math.pow(1 - progress, 3)\<close>.\<close>

definition easeProgress :: "real \<Rightarrow> real" where
  "easeProgress progress = 1 - (1 - progress) ^ 3"

text \<open>\<^verbatim>\<open>Math.min(elapsed / anim.duration, 1)\<close> with \<^verbatim>\<open>elapsed = now - anim.startTime\<close>.\<close>

definition animProgress :: "real \<Rightarrow> animation \<Rightarrow> real" where
  "animProgress now anim = min ((now - startTime anim) / duration anim) 1"

text \<open>
  The body of the loop of \<^verbatim>\<open>updateAnimations\<close> for an entry whose node exists: the
  node as left by the body, and whether the entry is put on \<^verbatim>\<open>toRemove\<close>.
\<close>

definition updateAnimation :: "real \<Rightarrow> animation \<Rightarrow> node \<Rightarrow> node \<times> bool" where
  "updateAnimation now anim n =
     (let progress = animProgress now anim;
          n1 = n\<lparr>xpos := startX anim + (targetX anim - startX anim) * easeProgress progress,
                 ypos := startY anim + (targetY anim - startY anim) * easeProgress progress\<rparr>
      in if progress \<ge> 1
         then (let n2 = n1\<lparr>xpos := targetX anim, ypos := targetY anim\<rparr>
               in ((if state n2 \<noteq> Quarantined
                    then n2\<lparr>originalX := None, originalY := None\<rparr> else n2), True))
         else (n1, False))"

text \<open>\<^verbatim>\<open>simulation.nodes.find(n => n.id === nodeId)\<close>, as the index of the node found.\<close>

fun findIndex :: "('a \<Rightarrow> bool) \<Rightarrow> 'a list \<Rightarrow> nat option" where
  "findIndex P [] = None"
| "findIndex P (v # vs) = (if P v then Some 0 else map_option Suc (findIndex P vs))"

fun animate_entries ::
  "real \<Rightarrow> (nat \<times> animation) list \<Rightarrow> node list \<Rightarrow> nat list \<Rightarrow> node list \<times> nat list" where
  "animate_entries now [] ns toRemove = (ns, toRemove)"
| "animate_entries now (entry # rest) ns toRemove =
     (case findIndex (\<lambda>n. node_id n = fst entry) ns of
        None \<Rightarrow> animate_entries now rest ns (toRemove @ [fst entry])
      | Some i \<Rightarrow>
          (let r = updateAnimation now (snd entry) (ns ! i)
           in animate_entries now rest (ns[i := fst r])
                (if snd r then toRemove @ [fst entry] else toRemove)))"

definition updateAnimations :: "real \<Rightarrow> world \<Rightarrow> world" where
  "updateAnimations now w =
     (let r = animate_entries now (nodeAnimations w) (nodes w) []
      in w\<lparr>nodes := fst r,
           nodeAnimations := foldl (\<lambda>al k. AList.delete k al) (nodeAnimations w) (snd r)\<rparr>)"

section \<open>The fallback topology\<close>

definition nodeCount :: nat where
  "nodeCount = 500"

text \<open>
  The loop that creates the nodes. The objects it pushes have no counters yet; the model
  gives them the value 0 that \<^verbatim>\<open>startFallbackSimulation\<close> assigns before the first step.
\<close>

function node_loop :: "nat \<Rightarrow> node list \<Rightarrow> rng \<Rightarrow> node list \<times> rng" where
  "node_loop i ns g =
     (if i < nodeCount
      then node_loop (i + 1)
             (ns @ [\<lparr>node_id = i,
                     xpos = Math_random g * 0.5 + 0.1,
                     ypos = Math_random (rng_next g) * 0.5 + 0.1,
                     state = Healthy, infectionTime = 0, quarantineTime = 0,
                     originalX = None, originalY = None\<rparr>])
             (rng_next (rng_next g))
      else (ns, g))"
  by pat_completeness auto
termination
  by (relation "measure (\<lambda>(i, ns, g). nodeCount - i)") auto

text \<open>\<^verbatim>\<open>Math.floor(Math.random() * 3) + 3\<close>.\<close>

definition numConnections :: "rng \<Rightarrow> nat" where
  "numConnections g = nat \<lfloor>Math_random g * 3\<rfloor> + 3"

text \<open>
  The inner loop over \<^verbatim>\<open>j\<close> for node \<open>i\<close>, by the number of iterations left; \<open>es\<close> is
  \<^verbatim>\<open>simulation.edges\<close>.
\<close>

fun connect_loop ::
  "nat \<Rightarrow> nat \<Rightarrow> nat set \<Rightarrow> edge list \<Rightarrow> rng \<Rightarrow> nat set \<times> edge list \<times> rng" where
  "connect_loop i 0 connectedSet es g = (connectedSet, es, g)"
| "connect_loop i (Suc k) connectedSet es g =
     (let t = nat \<lfloor>Math_random g * real nodeCount\<rfloor>
      in if t \<noteq> i \<and> t \<notin> connectedSet
         then connect_loop i k (insert t connectedSet) (es @ [\<lparr>source = i, target = t\<rparr>]) (rng_next g)
         else connect_loop i k connectedSet es (rng_next g))"

text \<open>One iteration of the outer edge loop: the draws of node \<open>i\<close>.\<close>

definition connect_node :: "nat \<Rightarrow> edge list \<Rightarrow> rng \<Rightarrow> nat set \<times> edge list \<times> rng" where
  "connect_node i es g = connect_loop i (numConnections g) {} es (rng_next g)"

function edge_loop :: "nat \<Rightarrow> edge list \<Rightarrow> rng \<Rightarrow> edge list \<times> rng" where
  "edge_loop i es g =
     (if i < nodeCount
      then edge_loop (i + 1) (fst (snd (connect_node i es g))) (snd (snd (connect_node i es g)))
      else (es, g))"
  by pat_completeness auto
termination
  by (relation "measure (\<lambda>(i, es, g). nodeCount - i)") auto

definition createFallbackNetwork :: "world \<Rightarrow> world" where
  "createFallbackNetwork w =
     (let r1 = node_loop 0 [] (random_source w);
          r2 = edge_loop 0 [] (snd r1)
      in w\<lparr>nodes := fst r1, edges := fst r2, random_source := snd r2\<rparr>)"

text \<open>Draws as \<^verbatim>\<open>Math.random()\<close> returns them: in the interval from 0 (inclusive) to 1.\<close>

definition unit_draws :: "rng \<Rightarrow> bool" where
  "unit_draws g \<longleftrightarrow> (\<forall>j. 0 \<le> g j \<and> g j < 1)"

text \<open>The edges of a list that leave node \<open>i\<close>.\<close>

definition out_edges :: "nat \<Rightarrow> edge list \<Rightarrow> edge list" where
  "out_edges i es = filter (\<lambda>e. source e = i) es"

text \<open>The invariant of the outer edge loop when it reaches node \<open>i\<close>.\<close>

definition edges_inv :: "nat \<Rightarrow> edge list \<Rightarrow> bool" where
  "edges_inv i es \<longleftrightarrow>
     (\<forall>e\<in>set es. source e < i \<and> target e < nodeCount \<and> target e \<noteq> source e)
     \<and> (\<forall>j. distinct (map target (out_edges j es)) \<and> length (out_edges j es) \<le> 5)"

text \<open>
  A description of the edge loops by the draws alone. \<open>rng_skip n g\<close> is the supply
  \<open>g\<close> after \<open>n\<close> draws; \<open>target_draws g d\<close> are the targets the next \<open>d\<close> draws of
  \<open>g\<close> select; \<open>first_occurrences\<close> keeps the first occurrence of every element of a
  list, in order.
\<close>

definition first_occurrences :: "'a list \<Rightarrow> 'a list" where
  "first_occurrences xs = rev (remdups (rev xs))"

definition rng_skip :: "nat \<Rightarrow> rng \<Rightarrow> rng" where
  "rng_skip n g = (\<lambda>k. g (k + n))"

definition target_draws :: "rng \<Rightarrow> nat \<Rightarrow> nat list" where
  "target_draws g d = map (\<lambda>j. nat \<lfloor>g j * real nodeCount\<rfloor>) [0..<d]"

text \<open>
  The edges node \<open>i\<close> is expected to add when its draws come from \<open>g\<close>: one draw for
  the out-degree, then that many target draws, and one edge for every different target
  among them that is not \<open>i\<close> itself, in the order of the first draw of each.
\<close>

definition drawn_edges :: "nat \<Rightarrow> rng \<Rightarrow> edge list" where
  "drawn_edges i g =
     map (\<lambda>t. \<lparr>source = i, target = t\<rparr>)
       (first_occurrences (filter (\<lambda>t. t \<noteq> i) (target_draws (rng_next g) (numConnections g))))"

text \<open>The edges expected for the nodes of a list, each node drawing after the one before.\<close>

fun network_edges :: "nat list \<Rightarrow> rng \<Rightarrow> edge list" where
  "network_edges [] g = []"
| "network_edges (i # rest) g =
     drawn_edges i g @ network_edges rest (rng_skip (numConnections g + 1) g)"

text \<open>The supply left for the node that draws \<open>k\<close> nodes after the one drawing from \<open>g\<close>.\<close>

fun node_rng :: "nat \<Rightarrow> rng \<Rightarrow> rng" where
  "node_rng 0 g = g"
| "node_rng (Suc k) g = node_rng k (rng_skip (numConnections g + 1) g)"

section \<open>One step of the local simulation\<close>

text \<open>
  The body of the loop over \<^verbatim>\<open>simulation.edges\<close>. Reading \<^verbatim>\<open>.state\<close> of a node
  that does not exist throws a \<^verbatim>\<open>TypeError\<close>.
\<close>

definition transmit_edge :: "real \<Rightarrow> edge \<Rightarrow> node list \<Rightarrow> rng \<Rightarrow> error + (node list \<times> rng)" where
  "transmit_edge rate e ns g =
     (if source e \<ge> length ns \<or> target e \<ge> length ns then Inl TypeError
      else
        (let src = ns ! source e; tgt = ns ! target e
         in if (state src = Infected \<and> state tgt = Healthy)
               \<or> (state tgt = Infected \<and> state src = Healthy)
            then (if Math_random g < rate
                  then (if state src = Healthy
                        then Inr (ns[source e := src\<lparr>state := Infected, infectionTime := 0\<rparr>],
                                  rng_next g)
                        else Inr (ns[target e := tgt\<lparr>state := Infected, infectionTime := 0\<rparr>],
                                  rng_next g))
                  else Inr (ns, rng_next g))
            else Inr (ns, g)))"

fun transmission :: "real \<Rightarrow> edge list \<Rightarrow> node list \<Rightarrow> rng \<Rightarrow> error + (node list \<times> rng)" where
  "transmission rate [] ns g = Inr (ns, g)"
| "transmission rate (e # es) ns g =
     (case transmit_edge rate e ns g of
        Inl err \<Rightarrow> Inl err
      | Inr r \<Rightarrow> transmission rate es (fst r) (snd r))"

text \<open>
  The quarantine check of an infected node whose counter has been incremented;
  \<open>oldState\<close> is the state the node had when the loop body began.
\<close>

definition quarantineCheck ::
  "real \<Rightarrow> real \<Rightarrow> compartment \<Rightarrow> node \<Rightarrow> (nat \<times> animation) list \<Rightarrow> rng
     \<Rightarrow> node \<times> (nat \<times> animation) list \<times> rng" where
  "quarantineCheck now qRate oldState n anims g =
     (if infectionTime n > 7
      then (if Math_random g < qRate
            then (let n1 = n\<lparr>state := Quarantined, quarantineTime := 0\<rparr>
                  in if oldState \<noteq> Quarantined
                     then (fst (startQuarantineAnimation now n1 anims),
                           snd (startQuarantineAnimation now n1 anims), rng_next g)
                     else (n1, anims, rng_next g))
            else (n, anims, rng_next g))
      else (n, anims, g))"

text \<open>The death/recovery check that follows it in the same branch.\<close>

definition deathRecoveryCheck :: "real \<Rightarrow> real \<Rightarrow> node \<Rightarrow> rng \<Rightarrow> node \<times> rng" where
  "deathRecoveryCheck dRate rRate n g =
     (if infectionTime n > 14
      then (if Math_random g < dRate then (n\<lparr>state := Deceased\<rparr>, rng_next g)
            else if Math_random (rng_next g) < rRate
                 then (n\<lparr>state := Recovered\<rparr>, rng_next (rng_next g))
                 else (n, rng_next (rng_next g)))
      else (n, g))"

text \<open>The body of the loop over \<^verbatim>\<open>simulation.nodes\<close>.\<close>

definition progress_node ::
  "real \<Rightarrow> real \<Rightarrow> real \<Rightarrow> real \<Rightarrow> node \<Rightarrow> (nat \<times> animation) list \<Rightarrow> rng
     \<Rightarrow> node \<times> (nat \<times> animation) list \<times> rng" where
  "progress_node now qRate dRate rRate n anims g =
     (let oldState = state n
      in if state n = Infected
         then (let n1 = n\<lparr>infectionTime := infectionTime n + 1\<rparr>;
                   q = quarantineCheck now qRate oldState n1 anims g;
                   d = deathRecoveryCheck dRate rRate (fst q) (snd (snd q))
               in (fst d, fst (snd q), snd d))
         else if state n = Quarantined
         then (let n1 = n\<lparr>quarantineTime := quarantineTime n + 1\<rparr>
               in if quarantineTime n1 > 14
                  then (if Math_random g < rRate
                        then (let n2 = n1\<lparr>state := Recovered\<rparr>
                              in if oldState = Quarantined
                                 then (n2, endQuarantineAnimation now n2 anims, rng_next g)
                                 else (n2, anims, rng_next g))
                        else (n1, anims, rng_next g))
                  else (n1, anims, g))
         else (n, anims, g))"

fun progression ::
  "real \<Rightarrow> real \<Rightarrow> real \<Rightarrow> real \<Rightarrow> node list \<Rightarrow> (nat \<times> animation) list \<Rightarrow> rng
     \<Rightarrow> node list \<times> (nat \<times> animation) list \<times> rng" where
  "progression now qRate dRate rRate [] anims g = ([], anims, g)"
| "progression now qRate dRate rRate (n # ns) anims g =
     (let r = progress_node now qRate dRate rRate n anims g;
          rs = progression now qRate dRate rRate ns (fst (snd r)) (snd (snd r))
      in (fst r # fst rs, snd rs))"

text \<open>The \<^verbatim>\<open>stats\<close> object built from the five \<^verbatim>\<open>filter(...).length\<close> counts.\<close>

definition count_state :: "compartment \<Rightarrow> node list \<Rightarrow> nat" where
  "count_state c ns = length (filter (\<lambda>n. state n = c) ns)"

definition compute_stats :: "node list \<Rightarrow> stats" where
  "compute_stats ns =
     \<lparr>healthy = count_state Healthy ns,
      infected = count_state Infected ns,
      recovered = count_state Recovered ns,
      quarantined = Some (count_state Quarantined ns),
      deceased = Some (count_state Deceased ns)\<rparr>"

text \<open>
  \<^verbatim>\<open>fallbackSimulationLoop\<close>: one step. Drawing, the DOM counters and the scheduling of
  the next call are outside the model.
\<close>

definition fallbackSimulationLoop :: "real \<Rightarrow> world \<Rightarrow> error + world" where
  "fallbackSimulationLoop now w =
     (if \<not> running w \<or> backendConnected w then Inr w
      else
        (case transmission (infectionRate w) (edges w) (nodes w) (random_source w) of
           Inl err \<Rightarrow> Inl err
         | Inr t \<Rightarrow>
             (let p = progression now (quarantineRate w) (deathRate w) (recoveryRate w)
                        (fst t) (nodeAnimations w) (snd t);
                  stp = step w + 1
              in Inr (w\<lparr>nodes := fst p,
                        nodeAnimations := fst (snd p),
                        random_source := snd (snd p),
                        step := stp,
                        day := stp div 3,
                        realtimeChart := addDataPoint (compute_stats (fst p)) stp (realtimeChart w)\<rparr>))))"

text \<open>Successive steps, one per timer tick, at the given clock readings.\<close>

fun fallbackSimulationRun :: "real list \<Rightarrow> world \<Rightarrow> error + world" where
  "fallbackSimulationRun [] w = Inr w"
| "fallbackSimulationRun (now # later) w =
     (case fallbackSimulationLoop now w of
        Inl err \<Rightarrow> Inl err
      | Inr w' \<Rightarrow> fallbackSimulationRun later w')"

section \<open>Reset\<close>

text \<open>
  \<^verbatim>\<open>resetSimulation\<close> up to its return; the request to the backend and the reload of
  the network it triggers complete later and are outside the model.
\<close>

definition resetSimulation :: "world \<Rightarrow> world" where
  "resetSimulation w =
     w\<lparr>running := False,
       nodeAnimations := [],
       nodes := map (\<lambda>n. n\<lparr>state := Healthy, originalX := None, originalY := None\<rparr>) (nodes w),
       step := 0,
       day := 0,
       realtimeChart := clear (realtimeChart w)\<rparr>"

section \<open>Transitions of a single node\<close>

text \<open>What transmission over one or more edges can do to a node.\<close>

definition infect_rel :: "node \<Rightarrow> node \<Rightarrow> bool" where
  "infect_rel n n' \<longleftrightarrow>
     n' = n \<or> (state n = Healthy \<and> n' = n\<lparr>state := Infected, infectionTime := 0\<rparr>)"

text \<open>What the body of the node loop can do to a node, for any draws.\<close>

definition progress_rel :: "node \<Rightarrow> node \<Rightarrow> bool" where
  "progress_rel n n' \<longleftrightarrow>
     (\<exists>now qRate dRate rRate anims g. n' = fst (progress_node now qRate dRate rRate n anims g))"

text \<open>Transmission followed by progression.\<close>

definition step_rel :: "node \<Rightarrow> node \<Rightarrow> bool" where
  "step_rel n n' \<longleftrightarrow> (\<exists>m. infect_rel n m \<and> progress_rel m n')"

section \<open>Sample inputs\<close>

definition sample_node :: "nat \<Rightarrow> compartment \<Rightarrow> nat \<Rightarrow> node" where
  "sample_node i c t =
     \<lparr>node_id = i, xpos = 3/10, ypos = 3/10, state = c, infectionTime = t,
      quarantineTime = 0, originalX = None, originalY = None\<rparr>"

text \<open>A running local simulation in which every draw (always 1/2) succeeds.\<close>

definition sample_world :: "node list \<Rightarrow> edge list \<Rightarrow> world" where
  "sample_world ns es =
     \<lparr>running = True, nodes = ns, edges = es, step = 0, day = 0, backendConnected = False,
      infectionRate = 1, recoveryRate = 1, deathRate = 1, quarantineRate = 1,
      nodeAnimations = [], realtimeChart = defaultChart, random_source = constant_draws (1/2)\<rparr>"

text \<open>A relocation from (3/10, 6/10) to (8/10, 1/10) that starts at time 0.\<close>

definition sample_animation :: animation where
  "sample_animation =
     \<lparr>startX = 3/10, startY = 6/10, targetX = 8/10, targetY = 1/10,
      startTime = 0, duration = ANIMATION_DURATION\<rparr>"

text \<open>Draws 0, 1/10, 2/10, ..., 6/10, repeated.\<close>

definition sample_draws :: rng where
  "sample_draws = (\<lambda>k. real (k mod 7) / 10)"

declare node_loop.simps [simp del] edge_loop.simps [simp del]

section \<open>Facts about the telemetry chart\<close>

lemma most_recent_snoc:
  "most_recent w (xs @ [v]) =
     (if length (most_recent w xs @ [v]) > w then tl (most_recent w xs @ [v])
      else most_recent w xs @ [v])"
proof (cases "length xs < w")
  case True
  then show ?thesis by (simp add: most_recent_def)
next
  case False
  then have ge: "w \<le> length xs" by simp
  have len: "length (most_recent w xs @ [v]) = Suc w"
    using ge by (simp add: most_recent_def)
  have "tl (drop (length xs - w) xs @ [v]) = drop (Suc (length xs) - w) (xs @ [v])"
  proof (cases "w = 0")
    case True
    then show ?thesis by simp
  next
    case False
    with ge have "drop (length xs - w) xs \<noteq> []" by simp
    then have "tl (drop (length xs - w) xs @ [v]) = tl (drop (length xs - w) xs) @ [v]"
      by simp
    also have "\<dots> = drop (Suc (length xs - w)) xs @ [v]"
      by (simp add: drop_Suc tl_drop)
    also have "\<dots> = drop (Suc (length xs - w)) (xs @ [v])"
      using ge False by simp
    also have "Suc (length xs - w) = Suc (length xs) - w"
      using ge by (rule Suc_diff_le [symmetric])
    finally show ?thesis .
  qed
  with len show ?thesis by (simp add: most_recent_def)
qed

lemma length_most_recent: "length (most_recent w xs) = min (length xs) w"
  by (simp add: most_recent_def min_def)

lemma addDataPoints_snoc:
  "addDataPoints (ps @ [p]) c = addDataPoint (fst p) (snd p) (addDataPoints ps c)"
  by (induction ps arbitrary: c) simp_all

lemma addDataPoints_maxDataPoints: "maxDataPoints (addDataPoints ps c) = maxDataPoints c"
  by (induction ps arbitrary: c) (simp_all add: addDataPoint_def Let_def)

lemma window_of_snoc:
  "window_of w (ps @ [p]) =
     (let d = push_point (fst p) (snd p) (window_of w ps)
      in if length (healthy_series d) > w then shift_all d else d)"
proof -
  have len: "\<And>f g. length (most_recent w (map f ps) @ [f p]) > w
      \<longleftrightarrow> length (most_recent w (map g ps) @ [g p]) > w"
    by (simp add: length_most_recent)
  show ?thesis
    unfolding window_of_def Let_def push_point_def shift_all_def
    by (simp add: most_recent_snoc length_most_recent)
qed

lemma addDataPoints_window:
  "data (addDataPoints ps (newChart w)) = window_of w ps"
proof (induction ps rule: rev_induct)
  case Nil
  show ?case by (simp add: newChart_def window_of_def emptyData_def most_recent_def)
next
  case (snoc p ps)
  have m: "maxDataPoints (addDataPoints ps (newChart w)) = w"
    by (simp add: addDataPoints_maxDataPoints newChart_def)
  show ?case
    by (simp add: addDataPoints_snoc addDataPoint_def window_of_snoc snoc.IH m Let_def)
qed

text \<open>
  Claim C6. Starting from a fresh chart with window size \<open>w\<close>, after any sequence of
  \<^verbatim>\<open>addDataPoint\<close> calls every series holds exactly the most recent \<open>w\<close> recorded values
  in recording order (one value per call and series, a missing quarantined or deceased
  count recorded as 0), so the window length is the smaller of the number of calls and
  \<open>w\<close> and never exceeds \<open>w\<close>; a single call appends one point to each series and drops
  the oldest one precisely when the length would exceed \<open>w\<close>; and \<^verbatim>\<open>clear\<close> leaves every
  series empty. The default window size is 100.
\<close>

theorem C6_telemetry_window:
  "data (addDataPoints ps (newChart w)) = window_of w ps
   \<and> length (timestamps (data (addDataPoints ps (newChart w)))) = min (length ps) w
   \<and> length (healthy_series (data (addDataPoints ps (newChart w)))) \<le> w
   \<and> length (timestamps (data (addDataPoints ps (newChart w)))) \<le> w
   \<and> timestamps (data (addDataPoints ps (newChart w))) = drop (length ps - w) (map snd ps)
   \<and> data (addDataPoint s stp (addDataPoints ps (newChart w))) =
       (let d = push_point s stp (window_of w ps)
        in if length (healthy_series d) > w then shift_all d else d)
   \<and> data (clear (addDataPoints ps (newChart w))) = emptyData
   \<and> length (timestamps (data (clear (addDataPoints ps (newChart w))))) = 0
   \<and> maxDataPoints defaultChart = 100"
proof -
  have w: "data (addDataPoints ps (newChart w)) = window_of w ps"
    by (rule addDataPoints_window)
  have m: "maxDataPoints (addDataPoints ps (newChart w)) = w"
    by (simp add: addDataPoints_maxDataPoints newChart_def)
  have t: "timestamps (window_of w ps) = drop (length ps - w) (map snd ps)"
    by (simp add: window_of_def most_recent_def)
  have h: "length (healthy_series (window_of w ps)) \<le> w"
    by (simp add: window_of_def length_most_recent)
  have a: "data (addDataPoint s stp (addDataPoints ps (newChart w))) =
       (let d = push_point s stp (window_of w ps)
        in if length (healthy_series d) > w then shift_all d else d)"
    by (simp add: addDataPoint_def Let_def w m)
  have c: "data (clear (addDataPoints ps (newChart w))) = emptyData"
    by (simp add: clear_def)
  have d: "maxDataPoints defaultChart = 100"
    by (simp add: defaultChart_def newChart_def)
  show ?thesis
    unfolding w using a c d h t
    by (auto simp: w emptyData_def)
qed

section \<open>Facts about one step\<close>

lemma infect_rel_refl: "infect_rel n n"
  by (simp add: infect_rel_def)

lemma infect_rel_trans: "infect_rel a b \<Longrightarrow> infect_rel b c \<Longrightarrow> infect_rel a c"
  by (auto simp: infect_rel_def)

lemma list_all2_infect_refl: "list_all2 infect_rel ns ns"
  by (simp add: list_all2_refl infect_rel_refl)

lemma list_all2_infect_update:
  "i < length ns \<Longrightarrow> infect_rel (ns ! i) v \<Longrightarrow> list_all2 infect_rel ns (ns[i := v])"
  by (simp add: list_all2_conv_all_nth nth_list_update infect_rel_refl)

lemma transmit_edge_rel:
  assumes "transmit_edge rate e ns g = Inr r"
  shows "list_all2 infect_rel ns (fst r)"
proof -
  from assms have s: "source e < length ns" and t: "target e < length ns"
    by (auto simp: transmit_edge_def split: if_splits)
  have a: "infect_rel (ns ! source e) ((ns ! source e)\<lparr>state := Infected, infectionTime := 0\<rparr>)"
    if "state (ns ! source e) = Healthy"
    using that by (simp add: infect_rel_def)
  have b: "infect_rel (ns ! target e) ((ns ! target e)\<lparr>state := Infected, infectionTime := 0\<rparr>)"
    if "state (ns ! target e) = Healthy"
    using that by (simp add: infect_rel_def)
  from assms show ?thesis
    using list_all2_infect_update [OF s a] list_all2_infect_update [OF t b]
    by (auto simp: transmit_edge_def Let_def list_all2_infect_refl split: if_splits)
qed

lemma list_all2_infect_trans:
  "list_all2 infect_rel xs ys \<Longrightarrow> list_all2 infect_rel ys zs \<Longrightarrow> list_all2 infect_rel xs zs"
  by (rule list_all2_trans [of infect_rel infect_rel infect_rel]) (auto intro: infect_rel_trans)

lemma transmission_rel:
  "transmission rate es ns g = Inr r \<Longrightarrow> list_all2 infect_rel ns (fst r)"
proof (induction es arbitrary: ns g)
  case Nil
  then show ?case by (auto simp: list_all2_infect_refl)
next
  case (Cons e es)
  then obtain r1 where r1: "transmit_edge rate e ns g = Inr r1"
    and rest: "transmission rate es (fst r1) (snd r1) = Inr r"
    by (auto split: sum.splits)
  from transmit_edge_rel [OF r1] Cons.IH [OF rest] show ?case
    by (rule list_all2_infect_trans)
qed

lemma progression_rel:
  "list_all2 progress_rel ns (fst (progression now qRate dRate rRate ns anims g))"
proof (induction ns arbitrary: anims g)
  case Nil
  show ?case by simp
next
  case (Cons n ns)
  have "progress_rel n (fst (progress_node now qRate dRate rRate n anims g))"
    unfolding progress_rel_def by blast
  with Cons.IH show ?case by (simp add: Let_def)
qed

lemma fallbackSimulationLoop_rel:
  assumes "fallbackSimulationLoop now w = Inr w'"
  shows "list_all2 (\<lambda>n n'. n' = n \<or> step_rel n n') (nodes w) (nodes w')"
proof (cases "\<not> running w \<or> backendConnected w")
  case True
  with assms have "w' = w" by (auto simp: fallbackSimulationLoop_def)
  then show ?thesis by (simp add: list_all2_refl)
next
  case False
  with assms obtain t where t: "transmission (infectionRate w) (edges w) (nodes w) (random_source w) = Inr t"
    and w': "nodes w' = fst (progression now (quarantineRate w) (deathRate w) (recoveryRate w)
                        (fst t) (nodeAnimations w) (snd t))"
    by (auto simp: fallbackSimulationLoop_def Let_def split: sum.splits)
  have "list_all2 (infect_rel OO progress_rel) (nodes w) (nodes w')"
    unfolding w' using transmission_rel [OF t] progression_rel
    by (auto simp: list.rel_compp)
  then show ?thesis
    by (rule list_all2_mono) (auto simp: step_rel_def)
qed

lemma startQuarantineAnimation_fields:
  "state (fst (startQuarantineAnimation now n anims)) = state n"
  "infectionTime (fst (startQuarantineAnimation now n anims)) = infectionTime n"
  "quarantineTime (fst (startQuarantineAnimation now n anims)) = quarantineTime n"
  by (simp_all add: startQuarantineAnimation_def Let_def)

lemma quarantineCheck_fields:
  "infectionTime (fst (quarantineCheck now qRate old n anims g)) = infectionTime n"
  "state (fst (quarantineCheck now qRate old n anims g)) = state n
     \<or> (state (fst (quarantineCheck now qRate old n anims g)) = Quarantined
         \<and> 7 < infectionTime n
         \<and> quarantineTime (fst (quarantineCheck now qRate old n anims g)) = 0)"
  by (simp_all add: quarantineCheck_def Let_def startQuarantineAnimation_fields)

lemma deathRecoveryCheck_fields:
  "infectionTime (fst (deathRecoveryCheck dRate rRate n g)) = infectionTime n"
  "quarantineTime (fst (deathRecoveryCheck dRate rRate n g)) = quarantineTime n"
  "state (fst (deathRecoveryCheck dRate rRate n g)) = state n
     \<or> (14 < infectionTime n
         \<and> (state (fst (deathRecoveryCheck dRate rRate n g)) = Deceased
            \<or> state (fst (deathRecoveryCheck dRate rRate n g)) = Recovered))"
  by (simp_all add: deathRecoveryCheck_def)

lemma progress_node_other:
  "state n \<noteq> Infected \<Longrightarrow> state n \<noteq> Quarantined
     \<Longrightarrow> fst (progress_node now qRate dRate rRate n anims g) = n"
  by (simp add: progress_node_def)

lemma progress_node_infected:
  assumes "state n = Infected"
    and n'_def: "n' = fst (progress_node now qRate dRate rRate n anims g)"
  shows "infectionTime n' = infectionTime n + 1"
    and "state n' = Infected
         \<or> (state n' = Quarantined \<and> 7 < infectionTime n')
         \<or> (state n' = Deceased \<and> 14 < infectionTime n')
         \<or> (state n' = Recovered \<and> 14 < infectionTime n')"
proof -
  let ?n1 = "n\<lparr>infectionTime := infectionTime n + 1\<rparr>"
  let ?q = "quarantineCheck now qRate (state n) ?n1 anims g"
  let ?d = "deathRecoveryCheck dRate rRate (fst ?q) (snd (snd ?q))"
  have n': "n' = fst ?d"
    using assms(1) by (simp add: n'_def progress_node_def Let_def)
  show it: "infectionTime n' = infectionTime n + 1"
    by (simp add: n' deathRecoveryCheck_fields quarantineCheck_fields)
  have q: "state (fst ?q) = Infected \<or> (state (fst ?q) = Quarantined \<and> 7 < infectionTime n + 1)"
    using quarantineCheck_fields(2) [of now qRate "state n" ?n1 anims g] assms(1) by auto
  have d: "state (fst ?d) = state (fst ?q)
     \<or> (14 < infectionTime n + 1 \<and> (state (fst ?d) = Deceased \<or> state (fst ?d) = Recovered))"
    using deathRecoveryCheck_fields(3) [of dRate rRate "fst ?q" "snd (snd ?q)"]
    by (simp add: quarantineCheck_fields)
  from q d show "state n' = Infected
         \<or> (state n' = Quarantined \<and> 7 < infectionTime n')
         \<or> (state n' = Deceased \<and> 14 < infectionTime n')
         \<or> (state n' = Recovered \<and> 14 < infectionTime n')"
    unfolding it unfolding n' by auto
qed

lemma progress_node_quarantined:
  assumes "state n = Quarantined"
    and n'_def: "n' = fst (progress_node now qRate dRate rRate n anims g)"
  shows "quarantineTime n' = quarantineTime n + 1"
    and "state n' = Quarantined \<or> (state n' = Recovered \<and> 14 < quarantineTime n')"
  using assms(1) by (simp_all add: n'_def progress_node_def Let_def)

text \<open>The transitions a whole step allows for one node.\<close>

lemma step_rel_absorbing:
  assumes "step_rel n n'" and "state n = Deceased \<or> state n = Recovered"
  shows "n' = n"
proof -
  from assms(1) obtain m where m: "infect_rel n m" and p: "progress_rel m n'"
    by (auto simp: step_rel_def)
  from m assms(2) have "m = n" by (auto simp: infect_rel_def)
  with p assms(2) show ?thesis
    by (auto simp: progress_rel_def progress_node_other)
qed

lemma step_rel_healthy:
  assumes "step_rel n n'" and "state n = Healthy"
  shows "n' = n \<or> (state n' = Infected \<and> infectionTime n' = 1)"
proof -
  from assms(1) obtain m where m: "infect_rel n m" and p: "progress_rel m n'"
    by (auto simp: step_rel_def)
  from p obtain now qRate dRate rRate anims g
    where n': "n' = fst (progress_node now qRate dRate rRate m anims g)"
    by (auto simp: progress_rel_def)
  from m consider "m = n" | "state m = Infected" "infectionTime m = 0"
    by (auto simp: infect_rel_def)
  then show ?thesis
  proof cases
    case 1
    with assms(2) n' show ?thesis by (simp add: progress_node_other)
  next
    case 2
    from progress_node_infected [OF 2(1) n'] 2(2)
    show ?thesis by auto
  qed
qed

lemma step_rel_from:
  assumes "step_rel n n'"
  shows "state n = Healthy \<or> progress_rel n n'"
proof -
  from assms(1) obtain m where m: "infect_rel n m" and p: "progress_rel m n'"
    by (auto simp: step_rel_def)
  from m have "state n = Healthy \<or> m = n" by (auto simp: infect_rel_def)
  with p show ?thesis by auto
qed

lemma progress_rel_into_healthy:
  assumes "progress_rel n n'" and "state n' = Healthy"
  shows "state n = Healthy"
proof -
  from assms(1) obtain now qRate dRate rRate anims g
    where n': "n' = fst (progress_node now qRate dRate rRate n anims g)"
    by (auto simp: progress_rel_def)
  show ?thesis
  proof (cases "state n = Infected")
    case True
    from progress_node_infected(2) [OF True n'] assms(2) show ?thesis by auto
  next
    case ni: False
    show ?thesis
    proof (cases "state n = Quarantined")
      case True
      from progress_node_quarantined(2) [OF True n'] assms(2) show ?thesis by auto
    next
      case False
      with ni n' assms(2) show ?thesis by (simp add: progress_node_other)
    qed
  qed
qed

lemma step_rel_into_healthy:
  assumes "step_rel n n'" and "state n' = Healthy"
  shows "state n = Healthy"
  using step_rel_from [OF assms(1)] progress_rel_into_healthy [OF _ assms(2)] by auto

lemma step_rel_enter_quarantine:
  assumes "step_rel n n'" and "state n' = Quarantined" and "state n \<noteq> Quarantined"
  shows "state n = Infected \<and> infectionTime n' = infectionTime n + 1 \<and> 7 < infectionTime n'"
proof -
  from step_rel_healthy [OF assms(1)] assms(2,3) have nh: "state n \<noteq> Healthy" by auto
  from step_rel_from [OF assms(1)] nh have p: "progress_rel n n'" by auto
  from p obtain now qRate dRate rRate anims g
    where n': "n' = fst (progress_node now qRate dRate rRate n anims g)"
    by (auto simp: progress_rel_def)
  have i: "state n = Infected"
  proof (rule ccontr)
    assume "state n \<noteq> Infected"
    with assms(3) n' have "n' = n" by (simp add: progress_node_other)
    with assms(2,3) show False by simp
  qed
  from progress_node_infected [OF i n'] assms(2) i
  show ?thesis by auto
qed

lemma step_rel_leave_quarantine:
  assumes "step_rel n n'" and "state n = Quarantined"
  shows "quarantineTime n' = quarantineTime n + 1
         \<and> (state n' = Quarantined \<or> (state n' = Recovered \<and> 14 < quarantineTime n'))"
proof -
  from step_rel_from [OF assms(1)] assms(2)
  have p: "progress_rel n n'" by auto
  then obtain now qRate dRate rRate anims g
    where n': "n' = fst (progress_node now qRate dRate rRate n anims g)"
    by (auto simp: progress_rel_def)
  from progress_node_quarantined [OF assms(2) n']
  show ?thesis by auto
qed

lemma count_state_sum:
  "count_state Healthy ns + count_state Infected ns + count_state Recovered ns
     + count_state Quarantined ns + count_state Deceased ns = length ns"
proof (induction ns)
  case Nil
  show ?case by (simp add: count_state_def)
next
  case (Cons n ns)
  then show ?case by (cases "state n") (simp_all add: count_state_def)
qed

lemma fallbackSimulationLoop_length:
  "fallbackSimulationLoop now w = Inr w' \<Longrightarrow> length (nodes w') = length (nodes w)"
  by (drule fallbackSimulationLoop_rel) (simp add: list_all2_lengthD)

lemma fallbackSimulationRun_length:
  "fallbackSimulationRun ts w = Inr w' \<Longrightarrow> length (nodes w') = length (nodes w)"
proof (induction ts arbitrary: w)
  case Nil
  then show ?case by simp
next
  case (Cons t ts)
  then obtain w1 where s: "fallbackSimulationLoop t w = Inr w1"
    and r: "fallbackSimulationRun ts w1 = Inr w'"
    by (auto split: sum.splits)
  from Cons.IH [OF r] fallbackSimulationLoop_length [OF s] show ?case by simp
qed

lemma fallbackSimulationLoop_nth:
  assumes "fallbackSimulationLoop now w = Inr w'" and "i < length (nodes w)"
  shows "nodes w' ! i = nodes w ! i \<or> step_rel (nodes w ! i) (nodes w' ! i)"
  using fallbackSimulationLoop_rel [OF assms(1)] assms(2)
  by (simp add: list_all2_conv_all_nth)

text \<open>
  Claim C3. After any number of local steps that complete, the population size is
  unchanged and the five counts of the \<^verbatim>\<open>stats\<close> object (healthy, infected, recovered,
  quarantined, deceased) add up to it: every node is counted in exactly one compartment.
\<close>

theorem C3_counts_sum_to_population:
  assumes "fallbackSimulationRun ts w = Inr w'"
  shows "length (nodes w') = length (nodes w)
    \<and> healthy (compute_stats (nodes w')) + infected (compute_stats (nodes w'))
        + recovered (compute_stats (nodes w')) + or_zero (quarantined (compute_stats (nodes w')))
        + or_zero (deceased (compute_stats (nodes w'))) = length (nodes w)"
proof -
  have "length (nodes w') = length (nodes w)"
    using assms by (rule fallbackSimulationRun_length)
  moreover have "healthy (compute_stats (nodes w')) + infected (compute_stats (nodes w'))
        + recovered (compute_stats (nodes w')) + or_zero (quarantined (compute_stats (nodes w')))
        + or_zero (deceased (compute_stats (nodes w'))) = length (nodes w')"
    using count_state_sum [of "nodes w'"] by (simp add: compute_stats_def or_zero_def)
  ultimately show ?thesis by simp
qed

text \<open>
  Claim C4. Deceased and Recovered are absorbing: a node that is Deceased or Recovered
  keeps its compartment through any number of further local steps.
\<close>

theorem C4_deceased_recovered_absorbing:
  assumes "fallbackSimulationRun ts w = Inr w'"
    and "i < length (nodes w)"
    and "state (nodes w ! i) = Deceased \<or> state (nodes w ! i) = Recovered"
  shows "state (nodes w' ! i) = state (nodes w ! i)"
  using assms
proof (induction ts arbitrary: w)
  case Nil
  then show ?case by simp
next
  case (Cons t ts)
  from Cons.prems(1) obtain w1 where s: "fallbackSimulationLoop t w = Inr w1"
    and r: "fallbackSimulationRun ts w1 = Inr w'"
    by (auto split: sum.splits)
  have same: "nodes w1 ! i = nodes w ! i"
    using fallbackSimulationLoop_nth [OF s Cons.prems(2)] Cons.prems(3)
    by (auto dest: step_rel_absorbing)
  have len: "i < length (nodes w1)"
    using fallbackSimulationLoop_length [OF s] Cons.prems(2) by simp
  from Cons.IH [OF r len] same Cons.prems(3) show ?case by simp
qed

text \<open>
  Claim C5. In one local step a Healthy node never becomes Quarantined; a node that
  enters Quarantined was Infected before the step and its infection counter, incremented
  by the step, exceeds 7; and a node that leaves Quarantined becomes Recovered, with an
  incremented quarantine counter that exceeds 14.
\<close>

theorem C5_quarantine_entry_and_exit:
  assumes "fallbackSimulationLoop now w = Inr w'" and "i < length (nodes w)"
  shows "(state (nodes w ! i) = Healthy \<longrightarrow> state (nodes w' ! i) \<noteq> Quarantined)
    \<and> (state (nodes w' ! i) = Quarantined \<and> state (nodes w ! i) \<noteq> Quarantined \<longrightarrow>
         state (nodes w ! i) = Infected
         \<and> infectionTime (nodes w' ! i) = infectionTime (nodes w ! i) + 1
         \<and> 7 < infectionTime (nodes w' ! i))
    \<and> (state (nodes w ! i) = Quarantined \<and> state (nodes w' ! i) \<noteq> Quarantined \<longrightarrow>
         state (nodes w' ! i) = Recovered \<and> 14 < quarantineTime (nodes w' ! i))"
proof -
  from fallbackSimulationLoop_nth [OF assms]
  consider "nodes w' ! i = nodes w ! i" | "step_rel (nodes w ! i) (nodes w' ! i)" by auto
  then show ?thesis
  proof cases
    case 1
    then show ?thesis by auto
  next
    case 2
    from step_rel_healthy [OF 2]
    have a: "state (nodes w ! i) = Healthy \<longrightarrow> state (nodes w' ! i) \<noteq> Quarantined" by auto
    from step_rel_enter_quarantine [OF 2]
    have b: "state (nodes w' ! i) = Quarantined \<and> state (nodes w ! i) \<noteq> Quarantined \<longrightarrow>
         state (nodes w ! i) = Infected
         \<and> infectionTime (nodes w' ! i) = infectionTime (nodes w ! i) + 1
         \<and> 7 < infectionTime (nodes w' ! i)" by blast
    from step_rel_leave_quarantine [OF 2]
    have c: "state (nodes w ! i) = Quarantined \<and> state (nodes w' ! i) \<noteq> Quarantined \<longrightarrow>
         state (nodes w' ! i) = Recovered \<and> 14 < quarantineTime (nodes w' ! i)" by blast
    from a b c show ?thesis by blast
  qed
qed

lemma count_state_healthy_mono:
  "list_all2 (\<lambda>n n'. state n' = Healthy \<longrightarrow> state n = Healthy) ns ns'
     \<Longrightarrow> count_state Healthy ns' \<le> count_state Healthy ns"
  by (induction ns ns' rule: list_all2_induct) (auto simp: count_state_def)

text \<open>
  Claim C10. No transition assigns Healthy, so the number of Healthy nodes after one local
  step is at most the number before it.
\<close>

theorem C10_healthy_count_non_increasing:
  assumes "fallbackSimulationLoop now w = Inr w'"
  shows "count_state Healthy (nodes w') \<le> count_state Healthy (nodes w)"
proof -
  have "list_all2 (\<lambda>n n'. state n' = Healthy \<longrightarrow> state n = Healthy) (nodes w) (nodes w')"
    using fallbackSimulationLoop_rel [OF assms]
    by (rule list_all2_mono) (auto dest: step_rel_into_healthy)
  then show ?thesis by (rule count_state_healthy_mono)
qed

lemma transmit_chain:
  assumes a: "a < length ns" and b: "b < length ns" and c: "c < length ns"
    and d: "a \<noteq> b" "b \<noteq> c" "a \<noteq> c"
    and s: "state (ns ! a) = Infected" "state (ns ! b) = Healthy" "state (ns ! c) = Healthy"
    and g: "Math_random g < rate" "Math_random (rng_next g) < rate"
  shows "\<exists>r. transmission rate [\<lparr>source = a, target = b\<rparr>, \<lparr>source = b, target = c\<rparr>] ns g = Inr r
            \<and> state (fst r ! b) = Infected \<and> state (fst r ! c) = Infected"
  using assms by (simp add: transmit_edge_def Let_def nth_list_update)

section \<open>Facts about the animation easing\<close>

lemma easeProgress_mono: "p \<le> q \<Longrightarrow> easeProgress p \<le> easeProgress q"
proof -
  assume "p \<le> q"
  then have "1 - q \<le> 1 - p" by simp
  then have "(1 - q) ^ 3 \<le> (1 - p) ^ 3"
    by (rule power_mono_odd [rotated]) simp
  then show ?thesis by (simp add: easeProgress_def)
qed

lemma easeProgress_0: "easeProgress 0 = 0" and easeProgress_1: "easeProgress 1 = 1"
  by (simp_all add: easeProgress_def)

lemma animProgress_le_1: "animProgress now anim \<le> 1"
  by (simp add: animProgress_def)

lemma updateAnimation_xpos:
  "xpos (fst (updateAnimation now anim n)) =
     startX anim + (targetX anim - startX anim) * easeProgress (animProgress now anim)"
proof (cases "animProgress now anim \<ge> 1")
  case True
  with animProgress_le_1 [of now anim] have "animProgress now anim = 1" by simp
  then show ?thesis by (simp add: updateAnimation_def Let_def easeProgress_1)
next
  case False
  then show ?thesis by (simp add: updateAnimation_def Let_def)
qed

lemma updateAnimation_ypos:
  "ypos (fst (updateAnimation now anim n)) =
     startY anim + (targetY anim - startY anim) * easeProgress (animProgress now anim)"
proof (cases "animProgress now anim \<ge> 1")
  case True
  with animProgress_le_1 [of now anim] have "animProgress now anim = 1" by simp
  then show ?thesis by (simp add: updateAnimation_def Let_def easeProgress_1)
next
  case False
  then show ?thesis by (simp add: updateAnimation_def Let_def)
qed

lemma animProgress_mono:
  "0 < duration anim \<Longrightarrow> t1 \<le> t2 \<Longrightarrow> animProgress t1 anim \<le> animProgress t2 anim"
  by (simp add: animProgress_def divide_right_mono min.coboundedI1)

lemma animProgress_start: "animProgress (startTime anim) anim = 0"
  by (simp add: animProgress_def)

lemma animProgress_done:
  "0 < duration anim \<Longrightarrow> startTime anim + duration anim \<le> now \<Longrightarrow> animProgress now anim = 1"
  by (simp add: animProgress_def min_def pos_le_divide_eq)

lemma interpolate_mono_up:
  fixes s t :: real
  shows "s \<le> t \<Longrightarrow> e1 \<le> e2 \<Longrightarrow> s + (t - s) * e1 \<le> s + (t - s) * e2"
  by (simp add: mult_left_mono)

lemma interpolate_mono_down:
  fixes s t :: real
  shows "t \<le> s \<Longrightarrow> e1 \<le> e2 \<Longrightarrow> s + (t - s) * e2 \<le> s + (t - s) * e1"
  by (simp add: mult_left_mono_neg)

text \<open>
  Claim C7. The easing is the cubic ease-out \<open>1 - (1 - progress)\<^sup>3\<close> and the position set
  by \<^verbatim>\<open>updateAnimations\<close> is the linear interpolation between start and target by the
  eased progress. At progress 0 the position is the start, at progress 1 it is the target
  (and the entry is removed), and along each axis the position is monotonic in the
  progress: non-decreasing towards a larger target coordinate, non-increasing towards a
  smaller one. For a positive duration the progress is 0 at the start time, 1 from the
  end of the duration on, and non-decreasing in time.
\<close>

theorem C7_cubic_ease_out:
  "easeProgress p = 1 - (1 - p) ^ 3
   \<and> xpos (fst (updateAnimation now anim n)) =
        startX anim + (targetX anim - startX anim) * easeProgress (animProgress now anim)
   \<and> ypos (fst (updateAnimation now anim n)) =
        startY anim + (targetY anim - startY anim) * easeProgress (animProgress now anim)
   \<and> (animProgress now anim = 0 \<longrightarrow>
        xpos (fst (updateAnimation now anim n)) = startX anim
        \<and> ypos (fst (updateAnimation now anim n)) = startY anim)
   \<and> (animProgress now anim = 1 \<longrightarrow>
        xpos (fst (updateAnimation now anim n)) = targetX anim
        \<and> ypos (fst (updateAnimation now anim n)) = targetY anim
        \<and> snd (updateAnimation now anim n))
   \<and> (animProgress t1 anim \<le> animProgress t2 anim \<longrightarrow>
        (startX anim \<le> targetX anim \<longrightarrow>
           xpos (fst (updateAnimation t1 anim n)) \<le> xpos (fst (updateAnimation t2 anim n)))
        \<and> (targetX anim \<le> startX anim \<longrightarrow>
           xpos (fst (updateAnimation t2 anim n)) \<le> xpos (fst (updateAnimation t1 anim n)))
        \<and> (startY anim \<le> targetY anim \<longrightarrow>
           ypos (fst (updateAnimation t1 anim n)) \<le> ypos (fst (updateAnimation t2 anim n)))
        \<and> (targetY anim \<le> startY anim \<longrightarrow>
           ypos (fst (updateAnimation t2 anim n)) \<le> ypos (fst (updateAnimation t1 anim n))))
   \<and> (0 < duration anim \<longrightarrow>
        animProgress (startTime anim) anim = 0
        \<and> (startTime anim + duration anim \<le> now \<longrightarrow> animProgress now anim = 1)
        \<and> (t1 \<le> t2 \<longrightarrow> animProgress t1 anim \<le> animProgress t2 anim))"
proof -
  have a: "animProgress now anim = 0 \<longrightarrow>
        xpos (fst (updateAnimation now anim n)) = startX anim
        \<and> ypos (fst (updateAnimation now anim n)) = startY anim"
    by (simp add: updateAnimation_xpos updateAnimation_ypos easeProgress_0)
  have b: "animProgress now anim = 1 \<longrightarrow>
        xpos (fst (updateAnimation now anim n)) = targetX anim
        \<and> ypos (fst (updateAnimation now anim n)) = targetY anim
        \<and> snd (updateAnimation now anim n)"
    by (simp add: updateAnimation_def Let_def)
  have c: "animProgress t1 anim \<le> animProgress t2 anim \<longrightarrow>
        (startX anim \<le> targetX anim \<longrightarrow>
           xpos (fst (updateAnimation t1 anim n)) \<le> xpos (fst (updateAnimation t2 anim n)))
        \<and> (targetX anim \<le> startX anim \<longrightarrow>
           xpos (fst (updateAnimation t2 anim n)) \<le> xpos (fst (updateAnimation t1 anim n)))
        \<and> (startY anim \<le> targetY anim \<longrightarrow>
           ypos (fst (updateAnimation t1 anim n)) \<le> ypos (fst (updateAnimation t2 anim n)))
        \<and> (targetY anim \<le> startY anim \<longrightarrow>
           ypos (fst (updateAnimation t2 anim n)) \<le> ypos (fst (updateAnimation t1 anim n)))"
    unfolding updateAnimation_xpos updateAnimation_ypos
    by (intro impI conjI interpolate_mono_up interpolate_mono_down easeProgress_mono)
  have d: "0 < duration anim \<longrightarrow>
        animProgress (startTime anim) anim = 0
        \<and> (startTime anim + duration anim \<le> now \<longrightarrow> animProgress now anim = 1)
        \<and> (t1 \<le> t2 \<longrightarrow> animProgress t1 anim \<le> animProgress t2 anim)"
    by (intro impI conjI animProgress_start animProgress_done animProgress_mono)
  have e: "easeProgress p = 1 - (1 - p) ^ 3"
    by (simp add: easeProgress_def)
  note x = updateAnimation_xpos [of now anim n] and y = updateAnimation_ypos [of now anim n]
  show ?thesis
    by (intro conjI e x y a b c d)
qed

section \<open>Facts about the fallback topology\<close>

lemma unit_draws_next: "unit_draws g \<Longrightarrow> unit_draws (rng_next g)"
  by (simp add: unit_draws_def rng_next_def)

lemma numConnections_range:
  assumes "unit_draws g"
  shows "3 \<le> numConnections g \<and> numConnections g \<le> 5"
proof -
  from assms have "0 \<le> g 0" and "g 0 < 1" by (simp_all add: unit_draws_def)
  then have "0 \<le> g 0 * 3" and "g 0 * 3 < 3" by simp_all
  then have "0 \<le> \<lfloor>g 0 * 3\<rfloor>" and "\<lfloor>g 0 * 3\<rfloor> < 3" by (simp_all add: floor_less_iff)
  then have "nat \<lfloor>g 0 * 3\<rfloor> \<le> 2" by linarith
  then show ?thesis by (simp add: numConnections_def Math_random_def)
qed

lemma draw_target_less:
  assumes "unit_draws g"
  shows "nat \<lfloor>Math_random g * real nodeCount\<rfloor> < nodeCount"
proof -
  from assms have "g 0 < 1" by (simp add: unit_draws_def)
  then have "g 0 * 500 < 500" by simp
  then have "\<lfloor>g 0 * 500\<rfloor> < 500" by (simp add: floor_less_iff)
  then have "nat \<lfloor>g 0 * 500\<rfloor> < 500" by linarith
  then show ?thesis by (simp add: nodeCount_def Math_random_def)
qed

lemma connect_loop_props:
  assumes "unit_draws g"
  shows "\<exists>new. fst (snd (connect_loop i k c es g)) = es @ new \<and> length new \<le> k
            \<and> distinct (map target new)
            \<and> (\<forall>e\<in>set new. source e = i \<and> target e \<noteq> i \<and> target e \<notin> c
                   \<and> target e < nodeCount)
            \<and> unit_draws (snd (snd (connect_loop i k c es g)))"
  using assms
proof (induction k arbitrary: c es g)
  case 0
  then show ?case by simp
next
  case (Suc k)
  let ?t = "nat \<lfloor>Math_random g * real nodeCount\<rfloor>"
  have g': "unit_draws (rng_next g)" using Suc.prems by (rule unit_draws_next)
  show ?case
  proof (cases "?t \<noteq> i \<and> ?t \<notin> c")
    case True
    let ?e = "\<lparr>source = i, target = ?t\<rparr>"
    from Suc.IH [OF g', of "insert ?t c" "es @ [?e]"]
    obtain new where n: "fst (snd (connect_loop i k (insert ?t c) (es @ [?e]) (rng_next g)))
          = (es @ [?e]) @ new"
      and l: "length new \<le> k" and d: "distinct (map target new)"
      and p: "\<forall>e\<in>set new. source e = i \<and> target e \<noteq> i \<and> target e \<notin> insert ?t c
                   \<and> target e < nodeCount"
      and u: "unit_draws (snd (snd (connect_loop i k (insert ?t c) (es @ [?e]) (rng_next g))))"
      by blast
    have step: "connect_loop i (Suc k) c es g
        = connect_loop i k (insert ?t c) (es @ [?e]) (rng_next g)"
      using True by (simp add: Let_def)
    have "fst (snd (connect_loop i (Suc k) c es g)) = es @ (?e # new)"
      by (simp only: step n) simp
    moreover have "length (?e # new) \<le> Suc k" using l by simp
    moreover have "distinct (map target (?e # new))" using d p by auto
    moreover have "\<forall>e\<in>set (?e # new). source e = i \<and> target e \<noteq> i \<and> target e \<notin> c
                   \<and> target e < nodeCount"
      using p True draw_target_less [OF Suc.prems] by auto
    moreover have "unit_draws (snd (snd (connect_loop i (Suc k) c es g)))"
      by (simp only: step u)
    ultimately show ?thesis by (intro exI [of _ "?e # new"] conjI)
  next
    case False
    from Suc.IH [OF g', of c es]
    obtain new where n: "fst (snd (connect_loop i k c es (rng_next g))) = es @ new"
      and l: "length new \<le> k" and d: "distinct (map target new)"
      and p: "\<forall>e\<in>set new. source e = i \<and> target e \<noteq> i \<and> target e \<notin> c
                   \<and> target e < nodeCount"
      and u: "unit_draws (snd (snd (connect_loop i k c es (rng_next g))))"
      by blast
    have step: "connect_loop i (Suc k) c es g = connect_loop i k c es (rng_next g)"
      using False by (auto simp: Let_def)
    from n l d p u show ?thesis
      unfolding step by (intro exI [of _ new]) simp
  qed
qed

lemma connect_node_props:
  assumes "unit_draws g"
  shows "\<exists>new. fst (snd (connect_node i es g)) = es @ new \<and> length new \<le> numConnections g
            \<and> distinct (map target new)
            \<and> (\<forall>e\<in>set new. source e = i \<and> target e \<noteq> i \<and> target e < nodeCount)
            \<and> unit_draws (snd (snd (connect_node i es g)))"
  using connect_loop_props [OF unit_draws_next [OF assms], of i "numConnections g" "{}" es]
  unfolding connect_node_def by auto

lemma edges_inv_step:
  assumes inv: "edges_inv i es" and g: "unit_draws g"
  shows "edges_inv (i + 1) (fst (snd (connect_node i es g)))"
proof -
  from connect_node_props [OF g, of i es]
  obtain new where n: "fst (snd (connect_node i es g)) = es @ new"
    and l: "length new \<le> numConnections g" and d: "distinct (map target new)"
    and p: "\<forall>e\<in>set new. source e = i \<and> target e \<noteq> i \<and> target e < nodeCount"
    by blast
  from l numConnections_range [OF g] have l5: "length new \<le> 5" by simp
  have old: "out_edges i es = []"
    using inv by (auto simp: edges_inv_def out_edges_def filter_empty_conv)
  have newi: "out_edges i new = new"
    using p by (simp add: out_edges_def)
  have newj: "j \<noteq> i \<Longrightarrow> out_edges j new = []" for j
    using p by (auto simp: out_edges_def filter_empty_conv)
  have out: "out_edges j (es @ new) = (if j = i then new else out_edges j es)" for j
    using old newi newj [of j] by (simp add: out_edges_def)
  have a: "\<forall>e\<in>set (es @ new). source e < i + 1 \<and> target e < nodeCount \<and> target e \<noteq> source e"
    using inv p by (auto simp: edges_inv_def)
  have b: "\<forall>j. distinct (map target (out_edges j (es @ new))) \<and> length (out_edges j (es @ new)) \<le> 5"
    using inv d l5 by (simp add: out edges_inv_def)
  from a b show ?thesis unfolding n edges_inv_def by blast
qed

lemma edge_loop_inv:
  "edges_inv i es \<Longrightarrow> unit_draws g \<Longrightarrow> i \<le> nodeCount
     \<Longrightarrow> edges_inv nodeCount (fst (edge_loop i es g))"
proof (induction i es g rule: edge_loop.induct)
  case (1 i es g)
  show ?case
  proof (cases "i < nodeCount")
    case True
    have u: "unit_draws (snd (snd (connect_node i es g)))"
      using connect_node_props [OF "1.prems"(2), of i es] by blast
    from True have le: "i + 1 \<le> nodeCount" by simp
    from "1.IH" [OF True edges_inv_step [OF "1.prems"(1,2)] u le]
    show ?thesis using True by (subst edge_loop.simps) simp
  next
    case False
    with "1.prems"(3) have i: "i = nodeCount" by simp
    have "edge_loop i es g = (es, g)"
      using False by (subst edge_loop.simps) simp
    with "1.prems"(1) i show ?thesis by simp
  qed
qed

lemma node_loop_props:
  "unit_draws g \<Longrightarrow> i \<le> nodeCount \<Longrightarrow>
     length (fst (node_loop i ns g)) = length ns + (nodeCount - i) \<and> unit_draws (snd (node_loop i ns g))"
proof (induction i ns g rule: node_loop.induct)
  case (1 i ns g)
  show ?case
  proof (cases "i < nodeCount")
    case True
    have u: "unit_draws (rng_next (rng_next g))"
      using "1.prems"(1) by (intro unit_draws_next)
    from "1.IH" [OF True u] True
    show ?thesis by (subst (1 2) node_loop.simps) simp
  next
    case False
    with "1.prems" show ?thesis by (subst (1 2) node_loop.simps) simp
  qed
qed

text \<open>The edge loops add exactly the edges the draws describe.\<close>

lemma first_occurrences_Nil: "first_occurrences [] = []"
  by (simp add: first_occurrences_def)

lemma remdups_snoc:
  "remdups (xs @ [t]) = remdups (filter (\<lambda>u. u \<noteq> t) xs) @ [t]"
  by (induction xs) auto

lemma first_occurrences_Cons:
  "first_occurrences (t # ts) = t # first_occurrences (filter (\<lambda>u. u \<noteq> t) ts)"
proof -
  have "remdups (rev ts @ [t]) = remdups (filter (\<lambda>u. u \<noteq> t) (rev ts)) @ [t]"
    by (rule remdups_snoc)
  then show ?thesis by (simp add: first_occurrences_def rev_filter)
qed

lemma set_first_occurrences: "set (first_occurrences xs) = set xs"
  by (simp add: first_occurrences_def)

lemma distinct_first_occurrences: "distinct (first_occurrences xs)"
  by (simp add: first_occurrences_def)

lemma first_occurrences_distinct: "distinct xs \<Longrightarrow> first_occurrences xs = xs"
  by (simp add: first_occurrences_def distinct_remdups_id)

lemma rng_skip_simps:
  "rng_skip 0 g = g" "rng_skip a (rng_skip b g) = rng_skip (a + b) g"
  "rng_next g = rng_skip 1 g" "rng_skip a (rng_next g) = rng_skip (Suc a) g"
  by (simp_all add: rng_skip_def rng_next_def add.assoc)

lemma target_draws_Suc:
  "target_draws g (Suc k) = nat \<lfloor>Math_random g * real nodeCount\<rfloor> # target_draws (rng_next g) k"
proof -
  have "[0..<Suc k] = 0 # map Suc [0..<k]"
    by (simp add: upt_conv_Cons map_Suc_upt del: upt_Suc)
  then show ?thesis
    by (simp add: target_draws_def Math_random_def rng_next_def comp_def del: upt_Suc)
qed

lemma connect_loop_exact:
  "connect_loop i k c es g =
     (c \<union> set (first_occurrences (filter (\<lambda>t. t \<noteq> i \<and> t \<notin> c) (target_draws g k))),
      es @ map (\<lambda>t. \<lparr>source = i, target = t\<rparr>)
             (first_occurrences (filter (\<lambda>t. t \<noteq> i \<and> t \<notin> c) (target_draws g k))),
      rng_skip k g)"
proof (induction k arbitrary: c es g)
  case 0
  show ?case by (simp add: target_draws_def first_occurrences_Nil rng_skip_simps)
next
  case (Suc k)
  let ?t = "nat \<lfloor>Math_random g * real nodeCount\<rfloor>"
  let ?rest = "target_draws (rng_next g) k"
  show ?case
  proof (cases "?t \<noteq> i \<and> ?t \<notin> c")
    case True
    have f: "filter (\<lambda>u. u \<noteq> ?t) (filter (\<lambda>t. t \<noteq> i \<and> t \<notin> c) ?rest)
        = filter (\<lambda>t. t \<noteq> i \<and> t \<notin> insert ?t c) ?rest"
      by (auto intro: filter_cong)
    have fo: "first_occurrences (filter (\<lambda>t. t \<noteq> i \<and> t \<notin> c) (target_draws g (Suc k)))
        = ?t # first_occurrences (filter (\<lambda>t. t \<noteq> i \<and> t \<notin> insert ?t c) ?rest)"
    proof -
      have "filter (\<lambda>t. t \<noteq> i \<and> t \<notin> c) (target_draws g (Suc k))
          = ?t # filter (\<lambda>t. t \<noteq> i \<and> t \<notin> c) ?rest"
        using True by (simp add: target_draws_Suc)
      then show ?thesis by (simp only: first_occurrences_Cons f)
    qed
    have step: "connect_loop i (Suc k) c es g
        = connect_loop i k (insert ?t c) (es @ [\<lparr>source = i, target = ?t\<rparr>]) (rng_next g)"
      using True by (simp add: Let_def)
    show ?thesis
      unfolding step Suc.IH fo by (simp add: rng_skip_simps)
  next
    case False
    have fo: "first_occurrences (filter (\<lambda>t. t \<noteq> i \<and> t \<notin> c) (target_draws g (Suc k)))
        = first_occurrences (filter (\<lambda>t. t \<noteq> i \<and> t \<notin> c) ?rest)"
      using False by (auto simp: target_draws_Suc)
    have step: "connect_loop i (Suc k) c es g = connect_loop i k c es (rng_next g)"
      using False by (auto simp: Let_def)
    show ?thesis
      unfolding step Suc.IH fo by (simp add: rng_skip_simps)
  qed
qed

lemma connect_node_exact:
  "connect_node i es g =
     (set (map target (drawn_edges i g)), es @ drawn_edges i g, rng_skip (numConnections g + 1) g)"
  by (simp add: connect_node_def connect_loop_exact drawn_edges_def rng_skip_simps comp_def)

lemma drawn_edges_targets:
  "set (map target (drawn_edges i g)) = set (target_draws (rng_next g) (numConnections g)) - {i}"
  by (auto simp: drawn_edges_def set_first_occurrences comp_def)

lemma drawn_edges_all_distinct:
  assumes "distinct (target_draws (rng_next g) (numConnections g))"
    and "i \<notin> set (target_draws (rng_next g) (numConnections g))"
  shows "map target (drawn_edges i g) = target_draws (rng_next g) (numConnections g)"
    and "length (drawn_edges i g) = numConnections g"
proof -
  have f: "filter (\<lambda>t. t \<noteq> i) (target_draws (rng_next g) (numConnections g))
      = target_draws (rng_next g) (numConnections g)"
    using assms(2) by (auto simp: filter_id_conv)
  show m: "map target (drawn_edges i g) = target_draws (rng_next g) (numConnections g)"
    by (simp add: drawn_edges_def f first_occurrences_distinct assms(1) comp_def)
  have "length (drawn_edges i g) = length (map target (drawn_edges i g))" by simp
  also have "\<dots> = numConnections g" unfolding m by (simp add: target_draws_def)
  finally show "length (drawn_edges i g) = numConnections g" .
qed

lemma edge_loop_exact:
  "i \<le> nodeCount \<Longrightarrow>
   edge_loop i es g = (es @ network_edges [i..<nodeCount] g, node_rng (nodeCount - i) g)"
proof (induction i es g rule: edge_loop.induct)
  case (1 i es g)
  show ?case
  proof (cases "i < nodeCount")
    case True
    then have le: "i + 1 \<le> nodeCount" by simp
    have u: "[i..<nodeCount] = i # [i + 1..<nodeCount]"
      using True by (simp add: upt_conv_Cons)
    have d: "nodeCount - i = Suc (nodeCount - (i + 1))" using True by simp
    have "edge_loop i es g = edge_loop (i + 1) (es @ drawn_edges i g)
             (rng_skip (numConnections g + 1) g)"
      using True by (subst edge_loop.simps) (simp add: connect_node_exact)
    also have "\<dots> = ((es @ drawn_edges i g)
             @ network_edges [i + 1..<nodeCount] (rng_skip (numConnections g + 1) g),
           node_rng (nodeCount - (i + 1)) (rng_skip (numConnections g + 1) g))"
      using "1.IH" [OF True le] by (simp add: connect_node_exact)
    finally show ?thesis unfolding u d by simp
  next
    case False
    with "1.prems" have "i = nodeCount" by simp
    then show ?thesis by (subst edge_loop.simps) simp
  qed
qed

lemma node_loop_rng:
  "i \<le> nodeCount \<Longrightarrow> snd (node_loop i ns g) = rng_skip (2 * (nodeCount - i)) g"
proof (induction i ns g rule: node_loop.induct)
  case (1 i ns g)
  show ?case
  proof (cases "i < nodeCount")
    case True
    then have le: "i + 1 \<le> nodeCount" by simp
    have d: "2 * (nodeCount - (i + 1)) + 2 = 2 * (nodeCount - i)" using True by simp
    from "1.IH" [OF True le] True show ?thesis
      by (subst node_loop.simps) (simp add: rng_skip_simps d [simplified])
  next
    case False
    with "1.prems" have "i = nodeCount" by simp
    then show ?thesis by (subst node_loop.simps) (simp add: rng_skip_simps)
  qed
qed

lemma out_edges_drawn:
  "out_edges j (drawn_edges i g) = (if j = i then drawn_edges i g else [])"
  by (auto simp: out_edges_def drawn_edges_def filter_map comp_def)

lemma out_edges_append: "out_edges j (xs @ ys) = out_edges j xs @ out_edges j ys"
  by (simp add: out_edges_def)

lemma out_edges_network:
  "out_edges j (network_edges [a..<a + k] g) =
     (if a \<le> j \<and> j < a + k then drawn_edges j (node_rng (j - a) g) else [])"
proof (induction k arbitrary: a g)
  case 0
  show ?case by (auto simp: out_edges_def)
next
  case (Suc k)
  let ?g' = "rng_skip (numConnections g + 1) g"
  have u: "[a..<a + Suc k] = a # [Suc a..<Suc a + k]"
    by (simp add: upt_conv_Cons del: upt_Suc)
  have split: "out_edges j (network_edges [a..<a + Suc k] g)
      = out_edges j (drawn_edges a g) @ out_edges j (network_edges [Suc a..<Suc a + k] ?g')"
    by (simp only: u network_edges.simps out_edges_append)
  have ih: "out_edges j (network_edges [Suc a..<Suc a + k] ?g')
      = (if Suc a \<le> j \<and> j < Suc a + k then drawn_edges j (node_rng (j - Suc a) ?g') else [])"
    by (rule Suc.IH)
  show ?case
  proof (cases "j = a")
    case True
    have "out_edges j (network_edges [a..<a + Suc k] g) = drawn_edges j g"
      unfolding split ih out_edges_drawn using True by simp
    with True show ?thesis by simp
  next
    case False
    show ?thesis
    proof (cases "Suc a \<le> j \<and> j < Suc a + k")
      case True
      then have d: "j - a = Suc (j - Suc a)" by arith
      have "out_edges j (network_edges [a..<a + Suc k] g)
          = drawn_edges j (node_rng (j - Suc a) ?g')"
        unfolding split ih out_edges_drawn using True False by simp
      also have "node_rng (j - Suc a) ?g' = node_rng (j - a) g"
        unfolding d by simp
      finally show ?thesis using True by simp
    next
      case nr: False
      have "out_edges j (network_edges [a..<a + Suc k] g) = []"
        unfolding split ih out_edges_drawn using nr False by auto
      moreover from nr False have "\<not> (a \<le> j \<and> j < a + Suc k)" by auto
      ultimately show ?thesis by (simp only: if_False)
    qed
  qed
qed

lemma unit_draws_skip: "unit_draws g \<Longrightarrow> unit_draws (rng_skip n g)"
  by (simp add: unit_draws_def rng_skip_def)

lemma unit_draws_node_rng: "unit_draws g \<Longrightarrow> unit_draws (node_rng k g)"
  by (induction k arbitrary: g) (simp_all add: unit_draws_skip)

text \<open>
  Claim C8, amended. Every node draws an out-degree \<open>d\<close> between 3 and 5 and then makes
  exactly \<open>d\<close> target draws; a draw that hits the node itself or a target it is already
  connected to adds no edge and is not repeated, and every other draw adds an edge. So
  the edges a node adds are one edge to every different target among its \<open>d\<close> draws
  other than the node itself, in the order of first draw: at most \<open>d\<close> edges, all to
  distinct other nodes, and exactly \<open>d\<close> when the \<open>d\<close> draws are pairwise different and
  miss the node itself. The finished network has 500 nodes; its edge list is these
  edges node after node, each node drawing where the previous one stopped (the first
  one after the 1000 draws of the positions), so the out-edges of every node are the ones
  its own draws describe; every edge joins two different existing nodes and every node
  has at most 5 out-edges, to distinct targets.
\<close>

theorem C8_out_edges:
  assumes "unit_draws g" and "unit_draws (random_source w)"
  shows "3 \<le> numConnections g \<and> numConnections g \<le> 5
    \<and> (\<exists>new. fst (snd (connect_node i es g)) = es @ new
           \<and> length new \<le> numConnections g
           \<and> distinct (map target new)
           \<and> (\<forall>e\<in>set new. source e = i \<and> target e \<noteq> i \<and> target e < nodeCount))
    \<and> connect_node i es g =
         (set (map target (drawn_edges i g)), es @ drawn_edges i g,
          rng_skip (numConnections g + 1) g)
    \<and> length (target_draws (rng_next g) (numConnections g)) = numConnections g
    \<and> set (map target (drawn_edges i g))
         = set (target_draws (rng_next g) (numConnections g)) - {i}
    \<and> (distinct (target_draws (rng_next g) (numConnections g))
         \<and> i \<notin> set (target_draws (rng_next g) (numConnections g))
        \<longrightarrow> map target (drawn_edges i g) = target_draws (rng_next g) (numConnections g)
            \<and> length (drawn_edges i g) = numConnections g)
    \<and> length (nodes (createFallbackNetwork w)) = nodeCount
    \<and> (\<forall>e\<in>set (edges (createFallbackNetwork w)).
          source e < nodeCount \<and> target e < nodeCount \<and> target e \<noteq> source e)
    \<and> (\<forall>j. distinct (map target (out_edges j (edges (createFallbackNetwork w))))
           \<and> length (out_edges j (edges (createFallbackNetwork w))) \<le> 5)
    \<and> edges (createFallbackNetwork w)
         = network_edges [0..<nodeCount] (rng_skip (2 * nodeCount) (random_source w))
    \<and> (\<forall>j. j < nodeCount \<longrightarrow>
           unit_draws (node_rng j (rng_skip (2 * nodeCount) (random_source w)))
           \<and> out_edges j (edges (createFallbackNetwork w))
               = drawn_edges j (node_rng j (rng_skip (2 * nodeCount) (random_source w))))
    \<and> random_source (createFallbackNetwork w)
         = node_rng nodeCount (rng_skip (2 * nodeCount) (random_source w))"
proof -
  let ?r1 = "node_loop 0 [] (random_source w)"
  let ?r2 = "edge_loop 0 [] (snd ?r1)"
  let ?g1 = "rng_skip (2 * nodeCount) (random_source w)"
  have n: "length (fst ?r1) = nodeCount" and u: "unit_draws (snd ?r1)"
    using node_loop_props [OF assms(2), of 0 "[]"] by simp_all
  have "edges_inv 0 []" by (simp add: edges_inv_def out_edges_def)
  from edge_loop_inv [OF this u] have k: "edges_inv nodeCount (fst ?r2)" by simp
  have g1: "snd ?r1 = ?g1"
    using node_loop_rng [of 0 "[]" "random_source w"] by simp
  have r2: "?r2 = (network_edges [0..<nodeCount] ?g1, node_rng nodeCount ?g1)"
    unfolding g1 using edge_loop_exact [of 0 "[]" ?g1] by simp
  have sel: "nodes (createFallbackNetwork w) = fst ?r1" "edges (createFallbackNetwork w) = fst ?r2"
    "random_source (createFallbackNetwork w) = snd ?r2"
    by (simp_all add: createFallbackNetwork_def Let_def)
  have a: "3 \<le> numConnections g \<and> numConnections g \<le> 5"
    using assms(1) by (rule numConnections_range)
  have b: "\<exists>new. fst (snd (connect_node i es g)) = es @ new
           \<and> length new \<le> numConnections g
           \<and> distinct (map target new)
           \<and> (\<forall>e\<in>set new. source e = i \<and> target e \<noteq> i \<and> target e < nodeCount)"
    using connect_node_props [OF assms(1), of i es] by blast
  have c: "\<forall>e\<in>set (edges (createFallbackNetwork w)).
          source e < nodeCount \<and> target e < nodeCount \<and> target e \<noteq> source e"
    using k unfolding sel edges_inv_def by blast
  have d: "\<forall>j. distinct (map target (out_edges j (edges (createFallbackNetwork w))))
           \<and> length (out_edges j (edges (createFallbackNetwork w))) \<le> 5"
    using k unfolding sel edges_inv_def by blast
  from n have n': "length (nodes (createFallbackNetwork w)) = nodeCount"
    by (simp only: sel)
  have e: "connect_node i es g =
         (set (map target (drawn_edges i g)), es @ drawn_edges i g,
          rng_skip (numConnections g + 1) g)"
    by (rule connect_node_exact)
  have f: "length (target_draws (rng_next g) (numConnections g)) = numConnections g"
    by (simp add: target_draws_def)
  have h: "set (map target (drawn_edges i g))
         = set (target_draws (rng_next g) (numConnections g)) - {i}"
    by (rule drawn_edges_targets)
  have l: "distinct (target_draws (rng_next g) (numConnections g))
         \<and> i \<notin> set (target_draws (rng_next g) (numConnections g))
        \<longrightarrow> map target (drawn_edges i g) = target_draws (rng_next g) (numConnections g)
            \<and> length (drawn_edges i g) = numConnections g"
    using drawn_edges_all_distinct [of g i] by simp
  have m: "edges (createFallbackNetwork w) = network_edges [0..<nodeCount] ?g1"
    by (simp only: sel r2 fst_conv)
  have ug: "unit_draws ?g1"
    using assms(2) by (rule unit_draws_skip)
  have o: "\<forall>j. j < nodeCount \<longrightarrow>
           unit_draws (node_rng j ?g1)
           \<and> out_edges j (edges (createFallbackNetwork w)) = drawn_edges j (node_rng j ?g1)"
  proof (intro allI impI conjI)
    fix j assume j: "j < nodeCount"
    show "unit_draws (node_rng j ?g1)" using ug by (rule unit_draws_node_rng)
    from out_edges_network [of j 0 nodeCount ?g1] j
    show "out_edges j (edges (createFallbackNetwork w)) = drawn_edges j (node_rng j ?g1)"
      unfolding m by simp
  qed
  have q: "random_source (createFallbackNetwork w) = node_rng nodeCount ?g1"
    by (simp only: sel r2 snd_conv)
  show ?thesis
    by (intro conjI a [THEN conjunct1] a [THEN conjunct2] b e f h l n' c d m o q)
qed

section \<open>Sample runs\<close>

lemma constant_draws_simps:
  "rng_next (constant_draws c) = constant_draws c" "Math_random (constant_draws c) = c"
  by (simp_all add: rng_next_def Math_random_def constant_draws_def)

lemma unit_draws_constant: "0 \<le> c \<Longrightarrow> c < 1 \<Longrightarrow> unit_draws (constant_draws c)"
  by (simp add: unit_draws_def constant_draws_def)

lemma sample_world_sel:
  "running (sample_world ns es) = True" "backendConnected (sample_world ns es) = False"
  "nodes (sample_world ns es) = ns" "edges (sample_world ns es) = es"
  "infectionRate (sample_world ns es) = 1" "recoveryRate (sample_world ns es) = 1"
  "deathRate (sample_world ns es) = 1" "quarantineRate (sample_world ns es) = 1"
  "nodeAnimations (sample_world ns es) = []"
  "random_source (sample_world ns es) = constant_draws (1/2)"
  by (simp_all add: sample_world_def)

lemma sample_node_sel:
  "state (sample_node i c t) = c" "infectionTime (sample_node i c t) = t"
  "quarantineTime (sample_node i c t) = 0" "node_id (sample_node i c t) = i"
  by (simp_all add: sample_node_def)

text \<open>A running local step with well-formed edges returns, and its nodes are those of the two loops.\<close>

lemma fallbackSimulationLoop_nodes:
  assumes "running w" and "\<not> backendConnected w"
    and "transmission (infectionRate w) (edges w) (nodes w) (random_source w) = Inr t"
  shows "\<exists>w'. fallbackSimulationLoop now w = Inr w'
     \<and> nodes w' = fst (progression now (quarantineRate w) (deathRate w) (recoveryRate w)
                        (fst t) (nodeAnimations w) (snd t))
     \<and> nodeAnimations w' = fst (snd (progression now (quarantineRate w) (deathRate w)
                        (recoveryRate w) (fst t) (nodeAnimations w) (snd t)))"
  using assms by (simp add: fallbackSimulationLoop_def Let_def)

text \<open>The sample step on a single node without edges.\<close>

lemma sample_step_single:
  "\<exists>w'. fallbackSimulationLoop now (sample_world [n] []) = Inr w'
     \<and> nodes w' = [fst (progress_node now 1 1 1 n [] (constant_draws (1/2)))]
     \<and> nodeAnimations w' = fst (snd (progress_node now 1 1 1 n [] (constant_draws (1/2))))"
proof -
  have t: "transmission (infectionRate (sample_world [n] [])) (edges (sample_world [n] []))
       (nodes (sample_world [n] [])) (random_source (sample_world [n] []))
       = Inr ([n], constant_draws (1/2))"
    by (simp add: sample_world_sel)
  from fallbackSimulationLoop_nodes [OF _ _ t, of now]
  show ?thesis by (simp add: sample_world_sel Let_def)
qed

lemma progress_sample_infected_14:
  "progress_node now 1 1 1 (sample_node 0 Infected 14) [] (constant_draws (1/2))
     = (fst (startQuarantineAnimation now (sample_node 0 Infected 15
              \<lparr>state := Quarantined, quarantineTime := 0\<rparr>) [])
            \<lparr>state := Deceased\<rparr>,
        snd (startQuarantineAnimation now (sample_node 0 Infected 15
              \<lparr>state := Quarantined, quarantineTime := 0\<rparr>) []), constant_draws (1/2))"
  by (simp add: progress_node_def quarantineCheck_def deathRecoveryCheck_def Let_def
      constant_draws_simps sample_node_def startQuarantineAnimation_fields)

lemma progress_sample_infected_0:
  "fst (progress_node now 1 1 1 (sample_node i Infected 0) anims g)
     = sample_node i Infected 1"
  by (simp add: progress_node_def quarantineCheck_def deathRecoveryCheck_def Let_def
      sample_node_def)

lemma progress_sample_deceased:
  "progress_node now 1 1 1 (sample_node i Deceased t) anims g = (sample_node i Deceased t, anims, g)"
  by (simp add: progress_node_def sample_node_def)

text \<open>
  Claim C1 says that the death/recovery check takes effect only when the quarantine check
  has left the node Infected. The loop body does not test the state between the two
  checks: for a node that has been infected for 14 steps, the quarantine check of the next
  step makes it Quarantined (counter reset, relocation to the quarantine area started), and
  the death check of the same step then makes it Deceased.
\<close>

theorem C1_quarantined_then_deceased_in_one_step:
  "(case fallbackSimulationLoop 0 (sample_world [sample_node 0 Infected 14] []) of
      Inl err \<Rightarrow> False
    | Inr w' \<Rightarrow> map state (nodes w') = [Deceased]
         \<and> map quarantineTime (nodes w') = [0]
         \<and> map fst (nodeAnimations w') = [0])
   \<and> state (fst (quarantineCheck 0 1 Infected (sample_node 0 Infected 15) []
                  (constant_draws (1/2)))) = Quarantined"
proof -
  from sample_step_single [of 0 "sample_node 0 Infected 14"]
  obtain w' where w': "fallbackSimulationLoop 0 (sample_world [sample_node 0 Infected 14] []) = Inr w'"
    and n: "nodes w' = [fst (progress_node 0 1 1 1 (sample_node 0 Infected 14) []
                               (constant_draws (1/2)))]"
    and a: "nodeAnimations w' = fst (snd (progress_node 0 1 1 1 (sample_node 0 Infected 14) []
                               (constant_draws (1/2))))"
    by blast
  have s: "map state (nodes w') = [Deceased]"
    by (simp add: n progress_sample_infected_14)
  have q: "map quarantineTime (nodes w') = [0]"
    by (simp add: n progress_sample_infected_14 startQuarantineAnimation_fields)
  have f: "map fst (nodeAnimations w') = [0]"
    unfolding a progress_sample_infected_14
    by (simp add: startQuarantineAnimation_def Let_def sample_node_def)
  have c: "state (fst (quarantineCheck 0 1 Infected (sample_node 0 Infected 15) []
                  (constant_draws (1/2)))) = Quarantined"
    by (simp add: quarantineCheck_def Let_def constant_draws_simps sample_node_sel
        startQuarantineAnimation_fields)
  from s q f c show ?thesis by (simp add: w')
qed

text \<open>
  The sample simulation is running locally, so the step above is not the early return:
  it completes and leaves the node Deceased.
\<close>

theorem C1_witness:
  "running (sample_world [sample_node 0 Infected 14] [])
   \<and> \<not> backendConnected (sample_world [sample_node 0 Infected 14] [])
   \<and> (\<exists>w'. fallbackSimulationLoop 0 (sample_world [sample_node 0 Infected 14] []) = Inr w'
          \<and> map state (nodes w') = [Deceased])"
  using C1_quarantined_then_deceased_in_one_step
  by (auto simp: sample_world_sel split: sum.splits)

lemma transmit_edge_ok:
  assumes "source e < length ns" and "target e < length ns"
  shows "\<exists>r. transmit_edge rate e ns g = Inr r \<and> length (fst r) = length ns"
  using assms by (simp add: transmit_edge_def Let_def)

lemma transmission_ok:
  "\<forall>e\<in>set es. source e < length ns \<and> target e < length ns
     \<Longrightarrow> \<exists>r. transmission rate es ns g = Inr r"
proof (induction es arbitrary: ns g)
  case Nil
  show ?case by simp
next
  case (Cons e es)
  from Cons.prems have "source e < length ns" and "target e < length ns" by simp_all
  from transmit_edge_ok [OF this, of rate g]
  obtain r where r: "transmit_edge rate e ns g = Inr r" and l: "length (fst r) = length ns"
    by blast
  from Cons.prems l have "\<forall>e\<in>set es. source e < length (fst r) \<and> target e < length (fst r)"
    by simp
  from Cons.IH [OF this, of "snd r"] r show ?case by simp
qed

lemma fallbackSimulationLoop_ok:
  assumes "\<forall>e\<in>set (edges w). source e < length (nodes w) \<and> target e < length (nodes w)"
  shows "\<exists>w'. fallbackSimulationLoop now w = Inr w' \<and> edges w' = edges w"
proof -
  from transmission_ok [OF assms, of "infectionRate w" "random_source w"]
  obtain t where "transmission (infectionRate w) (edges w) (nodes w) (random_source w) = Inr t"
    by blast
  then show ?thesis by (simp add: fallbackSimulationLoop_def Let_def)
qed

lemma fallbackSimulationRun_ok:
  "\<forall>e\<in>set (edges w). source e < length (nodes w) \<and> target e < length (nodes w)
     \<Longrightarrow> \<exists>w'. fallbackSimulationRun ts w = Inr w'"
proof (induction ts arbitrary: w)
  case Nil
  show ?case by simp
next
  case (Cons t ts)
  from fallbackSimulationLoop_ok [OF Cons.prems, of t]
  obtain w1 where s: "fallbackSimulationLoop t w = Inr w1" and e: "edges w1 = edges w"
    by blast
  from fallbackSimulationLoop_length [OF s] e Cons.prems
  have "\<forall>e\<in>set (edges w1). source e < length (nodes w1) \<and> target e < length (nodes w1)"
    by simp
  from Cons.IH [OF this] s show ?case by simp
qed

text \<open>The theorem of claim C3 at a concrete input.\<close>

theorem C3_witness:
  "\<exists>w'. fallbackSimulationRun [0, 1000] (sample_world [sample_node 0 Infected 14] []) = Inr w'
     \<and> length (nodes w') = 1
     \<and> healthy (compute_stats (nodes w')) + infected (compute_stats (nodes w'))
        + recovered (compute_stats (nodes w')) + or_zero (quarantined (compute_stats (nodes w')))
        + or_zero (deceased (compute_stats (nodes w'))) = 1"
proof -
  have "\<forall>e\<in>set (edges (sample_world [sample_node 0 Infected 14] [])).
      source e < length (nodes (sample_world [sample_node 0 Infected 14] []))
      \<and> target e < length (nodes (sample_world [sample_node 0 Infected 14] []))"
    by (simp add: sample_world_sel)
  from fallbackSimulationRun_ok [OF this, of "[0, 1000]"]
  obtain w' where r: "fallbackSimulationRun [0, 1000] (sample_world [sample_node 0 Infected 14] []) = Inr w'"
    by blast
  from C3_counts_sum_to_population [OF r] r show ?thesis
    by (intro exI [of _ w']) (simp add: sample_world_sel)
qed

text \<open>The theorem of claim C4 at a concrete input.\<close>

theorem C4_witness:
  "\<exists>w'. fallbackSimulationRun [0, 1000] (sample_world [sample_node 0 Deceased 20] []) = Inr w'
     \<and> state (nodes w' ! 0) = Deceased"
proof -
  have "\<forall>e\<in>set (edges (sample_world [sample_node 0 Deceased 20] [])).
      source e < length (nodes (sample_world [sample_node 0 Deceased 20] []))
      \<and> target e < length (nodes (sample_world [sample_node 0 Deceased 20] []))"
    by (simp add: sample_world_sel)
  from fallbackSimulationRun_ok [OF this, of "[0, 1000]"]
  obtain w' where r: "fallbackSimulationRun [0, 1000] (sample_world [sample_node 0 Deceased 20] []) = Inr w'"
    by blast
  have i: "0 < length (nodes (sample_world [sample_node 0 Deceased 20] []))"
    by (simp add: sample_world_sel)
  have d: "state (nodes (sample_world [sample_node 0 Deceased 20] []) ! 0) = Deceased
           \<or> state (nodes (sample_world [sample_node 0 Deceased 20] []) ! 0) = Recovered"
    by (simp add: sample_world_sel sample_node_sel)
  from C4_deceased_recovered_absorbing [OF r i d] r show ?thesis
    by (intro exI [of _ w']) (simp add: sample_world_sel sample_node_sel)
qed

text \<open>The sample step on a chain of three nodes, the first one infected.\<close>

lemma sample_chain_transmission:
  "transmission 1 [\<lparr>source = 0, target = 1\<rparr>, \<lparr>source = 1, target = 2\<rparr>]
     [sample_node 0 Infected 0, sample_node 1 Healthy 0, sample_node 2 Healthy 0]
     (constant_draws (1/2))
   = Inr ([sample_node 0 Infected 0, sample_node 1 Infected 0, sample_node 2 Infected 0],
          constant_draws (1/2))"
  by (simp add: transmit_edge_def Let_def constant_draws_simps sample_node_def)

lemma sample_chain_step:
  "\<exists>w'. fallbackSimulationLoop 0
           (sample_world [sample_node 0 Infected 0, sample_node 1 Healthy 0, sample_node 2 Healthy 0]
              [\<lparr>source = 0, target = 1\<rparr>, \<lparr>source = 1, target = 2\<rparr>]) = Inr w'
     \<and> nodes w' = [sample_node 0 Infected 1, sample_node 1 Infected 1, sample_node 2 Infected 1]"
proof -
  let ?w = "sample_world [sample_node 0 Infected 0, sample_node 1 Healthy 0, sample_node 2 Healthy 0]
              [\<lparr>source = 0, target = 1\<rparr>, \<lparr>source = 1, target = 2\<rparr>]"
  have t: "transmission (infectionRate ?w) (edges ?w) (nodes ?w) (random_source ?w)
     = Inr ([sample_node 0 Infected 0, sample_node 1 Infected 0, sample_node 2 Infected 0],
          constant_draws (1/2))"
    by (simp only: sample_world_sel sample_chain_transmission)
  from fallbackSimulationLoop_nodes [OF _ _ t, of 0]
  obtain w' where s: "fallbackSimulationLoop 0 ?w = Inr w'"
    and n: "nodes w' = fst (progression 0 (quarantineRate ?w) (deathRate ?w) (recoveryRate ?w)
         [sample_node 0 Infected 0, sample_node 1 Infected 0, sample_node 2 Infected 0]
         (nodeAnimations ?w) (constant_draws (1/2)))"
    by (auto simp: sample_world_sel)
  have "nodes w' = [sample_node 0 Infected 1, sample_node 1 Infected 1, sample_node 2 Infected 1]"
    unfolding n by (simp add: sample_world_sel Let_def progress_sample_infected_0)
  with s show ?thesis by (intro exI [of _ w']) simp
qed

text \<open>
  With a snapshot, node 2 would stay Healthy and nodes 1 and 2 would end the step with
  counter 0. In the code all three nodes of the chain are Infected after one step, each
  with counter 1.
\<close>

theorem C2_counterexample:
  "(case fallbackSimulationLoop 0
           (sample_world [sample_node 0 Infected 0, sample_node 1 Healthy 0, sample_node 2 Healthy 0]
              [\<lparr>source = 0, target = 1\<rparr>, \<lparr>source = 1, target = 2\<rparr>]) of
      Inl err \<Rightarrow> False
    | Inr w' \<Rightarrow> map state (nodes w') = [Infected, Infected, Infected]
         \<and> map infectionTime (nodes w') = [1, 1, 1])"
proof -
  from sample_chain_step obtain w' where
    "fallbackSimulationLoop 0
           (sample_world [sample_node 0 Infected 0, sample_node 1 Healthy 0, sample_node 2 Healthy 0]
              [\<lparr>source = 0, target = 1\<rparr>, \<lparr>source = 1, target = 2\<rparr>]) = Inr w'"
    and "nodes w' = [sample_node 0 Infected 1, sample_node 1 Infected 1, sample_node 2 Infected 1]"
    by blast
  then show ?thesis by (simp add: sample_node_sel)
qed

text \<open>
  Claim C2, amended. The step has no snapshot and updates the nodes in place:
  transmission over an edge sees the infections made over the earlier edges of the same
  step, so along two consecutive edges a freshly infected node infects its neighbour in
  the same step; and progression runs on the nodes as transmission left them, so a node
  that is infected during a step ends that step Infected with infection counter 1.
\<close>

theorem C2_in_place_update:
  "(a < length ns \<and> b < length ns \<and> c < length ns \<and> a \<noteq> b \<and> b \<noteq> c \<and> a \<noteq> c
      \<and> state (ns ! a) = Infected \<and> state (ns ! b) = Healthy \<and> state (ns ! c) = Healthy
      \<and> Math_random g < rate \<and> Math_random (rng_next g) < rate
    \<longrightarrow> (\<exists>r. transmission rate [\<lparr>source = a, target = b\<rparr>, \<lparr>source = b, target = c\<rparr>] ns g = Inr r
            \<and> state (fst r ! b) = Infected \<and> state (fst r ! c) = Infected))
   \<and> (fallbackSimulationLoop now w = Inr w' \<and> i < length (nodes w)
        \<and> state (nodes w ! i) = Healthy \<and> state (nodes w' ! i) \<noteq> Healthy
      \<longrightarrow> state (nodes w' ! i) = Infected \<and> infectionTime (nodes w' ! i) = 1)"
proof (intro conjI impI)
  assume h: "a < length ns \<and> b < length ns \<and> c < length ns \<and> a \<noteq> b \<and> b \<noteq> c \<and> a \<noteq> c
      \<and> state (ns ! a) = Infected \<and> state (ns ! b) = Healthy \<and> state (ns ! c) = Healthy
      \<and> Math_random g < rate \<and> Math_random (rng_next g) < rate"
  then show "\<exists>r. transmission rate [\<lparr>source = a, target = b\<rparr>, \<lparr>source = b, target = c\<rparr>] ns g = Inr r
            \<and> state (fst r ! b) = Infected \<and> state (fst r ! c) = Infected"
    by (intro transmit_chain) simp_all
next
  assume h: "fallbackSimulationLoop now w = Inr w' \<and> i < length (nodes w)
        \<and> state (nodes w ! i) = Healthy \<and> state (nodes w' ! i) \<noteq> Healthy"
  then have s: "fallbackSimulationLoop now w = Inr w'" and i: "i < length (nodes w)" by simp_all
  from fallbackSimulationLoop_nth [OF s i] h
  have "state (nodes w' ! i) = Infected \<and> infectionTime (nodes w' ! i) = 1"
    by (auto dest: step_rel_healthy)
  then show "state (nodes w' ! i) = Infected" and "infectionTime (nodes w' ! i) = 1" by simp_all
qed

text \<open>The theorem of claim C2 at a concrete input.\<close>

theorem C2_witness:
  "(\<exists>r. transmission 1 [\<lparr>source = 0, target = 1\<rparr>, \<lparr>source = 1, target = 2\<rparr>]
          [sample_node 0 Infected 0, sample_node 1 Healthy 0, sample_node 2 Healthy 0]
          (constant_draws (1/2)) = Inr r
        \<and> state (fst r ! 1) = Infected \<and> state (fst r ! 2) = Infected)
   \<and> (\<exists>w'. fallbackSimulationLoop 0
           (sample_world [sample_node 0 Infected 0, sample_node 1 Healthy 0, sample_node 2 Healthy 0]
              [\<lparr>source = 0, target = 1\<rparr>, \<lparr>source = 1, target = 2\<rparr>]) = Inr w'
        \<and> state (nodes w' ! 2) = Infected \<and> infectionTime (nodes w' ! 2) = 1)"
proof -
  let ?ns = "[sample_node 0 Infected 0, sample_node 1 Healthy 0, sample_node 2 Healthy 0]"
  let ?w = "sample_world ?ns [\<lparr>source = 0, target = 1\<rparr>, \<lparr>source = 1, target = 2\<rparr>]"
  from sample_chain_step obtain w' where s: "fallbackSimulationLoop 0 ?w = Inr w'"
    and n: "nodes w' = [sample_node 0 Infected 1, sample_node 1 Infected 1, sample_node 2 Infected 1]"
    by blast
  have h1: "0 < length ?ns \<and> 1 < length ?ns \<and> 2 < length ?ns \<and> (0::nat) \<noteq> 1
      \<and> (1::nat) \<noteq> 2 \<and> (0::nat) \<noteq> 2
      \<and> state (?ns ! 0) = Infected \<and> state (?ns ! 1) = Healthy \<and> state (?ns ! 2) = Healthy
      \<and> Math_random (constant_draws (1/2)) < 1
      \<and> Math_random (rng_next (constant_draws (1/2))) < 1"
    by (simp add: sample_node_sel constant_draws_simps)
  have h2: "fallbackSimulationLoop 0 ?w = Inr w' \<and> 2 < length (nodes ?w)
        \<and> state (nodes ?w ! 2) = Healthy \<and> state (nodes w' ! 2) \<noteq> Healthy"
    using s by (simp add: n sample_world_sel sample_node_sel)
  from C2_in_place_update [of 0 ?ns 1 2 "constant_draws (1/2)" 1 0 ?w w' 2] h1 h2 s
  show ?thesis by blast
qed

lemma progress_sample_infected_7:
  "state (fst (progress_node now 1 1 1 (sample_node i Infected 7) anims (constant_draws (1/2))))
     = Quarantined"
  by (simp add: progress_node_def quarantineCheck_def deathRecoveryCheck_def Let_def
      constant_draws_simps sample_node_sel startQuarantineAnimation_fields)

lemma progress_sample_quarantined_14:
  "state (fst (progress_node now 1 1 1 ((sample_node i Quarantined 9)\<lparr>quarantineTime := 14\<rparr>)
            anims (constant_draws (1/2)))) = Recovered"
  by (simp add: progress_node_def Let_def constant_draws_simps sample_node_sel)

lemma progress_sample_healthy:
  "fst (progress_node now 1 1 1 (sample_node i Healthy t) anims g) = sample_node i Healthy t"
  by (simp add: progress_node_other sample_node_sel)

text \<open>The theorem of claim C5 at a concrete input.\<close>

theorem C5_witness:
  "(\<exists>w'. fallbackSimulationLoop 0 (sample_world [sample_node 0 Healthy 0] []) = Inr w'
        \<and> state (nodes w' ! 0) \<noteq> Quarantined)
   \<and> (\<exists>w'. fallbackSimulationLoop 0 (sample_world [sample_node 0 Infected 7] []) = Inr w'
        \<and> state (nodes w' ! 0) = Quarantined
        \<and> infectionTime (nodes w' ! 0) = 8 \<and> 7 < infectionTime (nodes w' ! 0))
   \<and> (\<exists>w'. fallbackSimulationLoop 0
             (sample_world [(sample_node 0 Quarantined 9)\<lparr>quarantineTime := 14\<rparr>] []) = Inr w'
        \<and> state (nodes w' ! 0) = Recovered \<and> 14 < quarantineTime (nodes w' ! 0))"
proof (intro conjI)
  let ?w = "sample_world [sample_node 0 Healthy 0] []"
  from sample_step_single [of 0 "sample_node 0 Healthy 0"]
  obtain w' where s: "fallbackSimulationLoop 0 ?w = Inr w'"
    and n: "nodes w' = [sample_node 0 Healthy 0]"
    by (auto simp: progress_sample_healthy)
  have i: "0 < length (nodes ?w)" by (simp add: sample_world_sel)
  have h: "state (nodes ?w ! 0) = Healthy" by (simp add: sample_world_sel sample_node_sel)
  from C5_quarantine_entry_and_exit [OF s i] h s
  show "\<exists>w'. fallbackSimulationLoop 0 ?w = Inr w' \<and> state (nodes w' ! 0) \<noteq> Quarantined"
    by (intro exI [of _ w']) simp
next
  let ?w = "sample_world [sample_node 0 Infected 7] []"
  from sample_step_single [of 0 "sample_node 0 Infected 7"]
  obtain w' where s: "fallbackSimulationLoop 0 ?w = Inr w'"
    and n: "state (nodes w' ! 0) = Quarantined"
    by (auto simp: progress_sample_infected_7)
  have i: "0 < length (nodes ?w)" by (simp add: sample_world_sel)
  have h: "state (nodes ?w ! 0) \<noteq> Quarantined" "infectionTime (nodes ?w ! 0) = 7"
    by (simp_all add: sample_world_sel sample_node_sel)
  from C5_quarantine_entry_and_exit [OF s i] h n s
  show "\<exists>w'. fallbackSimulationLoop 0 ?w = Inr w' \<and> state (nodes w' ! 0) = Quarantined
        \<and> infectionTime (nodes w' ! 0) = 8 \<and> 7 < infectionTime (nodes w' ! 0)"
    by (intro exI [of _ w']) simp
next
  let ?w = "sample_world [(sample_node 0 Quarantined 9)\<lparr>quarantineTime := 14\<rparr>] []"
  from sample_step_single [of 0 "(sample_node 0 Quarantined 9)\<lparr>quarantineTime := 14\<rparr>"]
  obtain w' where s: "fallbackSimulationLoop 0 ?w = Inr w'"
    and n: "state (nodes w' ! 0) = Recovered"
    by (auto simp: progress_sample_quarantined_14)
  have i: "0 < length (nodes ?w)" by (simp add: sample_world_sel)
  have h: "state (nodes ?w ! 0) = Quarantined"
    by (simp_all add: sample_world_sel sample_node_sel)
  from C5_quarantine_entry_and_exit [OF s i] h n s
  show "\<exists>w'. fallbackSimulationLoop 0 ?w = Inr w' \<and> state (nodes w' ! 0) = Recovered
        \<and> 14 < quarantineTime (nodes w' ! 0)"
    by (intro exI [of _ w']) simp
qed

text \<open>The theorem of claim C10 at a concrete input.\<close>

theorem C10_witness:
  "\<exists>w'. fallbackSimulationLoop 0
           (sample_world [sample_node 0 Infected 0, sample_node 1 Healthy 0, sample_node 2 Healthy 0]
              [\<lparr>source = 0, target = 1\<rparr>, \<lparr>source = 1, target = 2\<rparr>]) = Inr w'
     \<and> count_state Healthy (nodes w') \<le> 2"
proof -
  let ?w = "sample_world [sample_node 0 Infected 0, sample_node 1 Healthy 0, sample_node 2 Healthy 0]
              [\<lparr>source = 0, target = 1\<rparr>, \<lparr>source = 1, target = 2\<rparr>]"
  from sample_chain_step obtain w' where s: "fallbackSimulationLoop 0 ?w = Inr w'" by blast
  have c: "count_state Healthy (nodes ?w) = 2"
    by (simp add: sample_world_sel sample_node_sel count_state_def)
  from C10_healthy_count_non_increasing [OF s] c s show ?thesis
    by (intro exI [of _ w']) simp
qed

text \<open>
  Claim C9, amended. After \<^verbatim>\<open>resetSimulation\<close>, from any state, the simulation is not
  running, every node is Healthy, the saved pre-quarantine positions are cleared, no
  animation is in flight, the telemetry window is empty and the step and day counters are
  0. The infection and quarantine counters of the nodes are left as they were.
\<close>

theorem C9_reset:
  "running (resetSimulation w) = False
   \<and> map state (nodes (resetSimulation w)) = replicate (length (nodes w)) Healthy
   \<and> map originalX (nodes (resetSimulation w)) = replicate (length (nodes w)) None
   \<and> map originalY (nodes (resetSimulation w)) = replicate (length (nodes w)) None
   \<and> nodeAnimations (resetSimulation w) = []
   \<and> data (realtimeChart (resetSimulation w)) = emptyData
   \<and> length (timestamps (data (realtimeChart (resetSimulation w)))) = 0
   \<and> step (resetSimulation w) = 0
   \<and> day (resetSimulation w) = 0
   \<and> map infectionTime (nodes (resetSimulation w)) = map infectionTime (nodes w)
   \<and> map quarantineTime (nodes (resetSimulation w)) = map quarantineTime (nodes w)"
  by (simp add: resetSimulation_def clear_def emptyData_def map_replicate_const comp_def)

text \<open>A node infected for one step keeps its infection counter 1 through a reset.\<close>

theorem C9_counterexample:
  "(case fallbackSimulationLoop 0 (sample_world [sample_node 0 Infected 0] []) of
      Inl err \<Rightarrow> False
    | Inr w' \<Rightarrow> map infectionTime (nodes (resetSimulation w')) = [1])"
proof -
  from sample_step_single [of 0 "sample_node 0 Infected 0"]
  obtain w' where s: "fallbackSimulationLoop 0 (sample_world [sample_node 0 Infected 0] []) = Inr w'"
    and n: "nodes w' = [sample_node 0 Infected 1]"
    by (auto simp: progress_sample_infected_0)
  have "map infectionTime (nodes (resetSimulation w')) = [1]"
    by (simp add: resetSimulation_def n sample_node_sel sample_node_def)
  with s show ?thesis by simp
qed

lemma sample_animation_sel:
  "startX sample_animation = 3/10" "startY sample_animation = 6/10"
  "targetX sample_animation = 8/10" "targetY sample_animation = 1/10"
  "startTime sample_animation = 0" "duration sample_animation = 1000"
  by (simp_all add: sample_animation_def ANIMATION_DURATION_def)

text \<open>The theorem of claim C7 at a concrete input.\<close>

theorem C7_witness:
  "animProgress 0 sample_animation = 0
   \<and> animProgress 1000 sample_animation = 1
   \<and> animProgress 250 sample_animation \<le> animProgress 500 sample_animation
   \<and> xpos (fst (updateAnimation 0 sample_animation (sample_node 0 Quarantined 9))) = 3/10
   \<and> ypos (fst (updateAnimation 0 sample_animation (sample_node 0 Quarantined 9))) = 6/10
   \<and> xpos (fst (updateAnimation 1000 sample_animation (sample_node 0 Quarantined 9))) = 8/10
   \<and> ypos (fst (updateAnimation 1000 sample_animation (sample_node 0 Quarantined 9))) = 1/10
   \<and> xpos (fst (updateAnimation 250 sample_animation (sample_node 0 Quarantined 9)))
       \<le> xpos (fst (updateAnimation 500 sample_animation (sample_node 0 Quarantined 9)))
   \<and> ypos (fst (updateAnimation 500 sample_animation (sample_node 0 Quarantined 9)))
       \<le> ypos (fst (updateAnimation 250 sample_animation (sample_node 0 Quarantined 9)))"
proof -
  have p0: "animProgress 0 sample_animation = 0"
    and p1: "animProgress 1000 sample_animation = 1"
    and p2: "animProgress 250 sample_animation \<le> animProgress 500 sample_animation"
    by (simp_all add: animProgress_def sample_animation_sel)
  have d: "0 < duration sample_animation" "startX sample_animation \<le> targetX sample_animation"
    "targetY sample_animation \<le> startY sample_animation"
    by (simp_all add: sample_animation_sel)
  from C7_cubic_ease_out [of 0 0 sample_animation "sample_node 0 Quarantined 9" 250 500] p0
  have a: "xpos (fst (updateAnimation 0 sample_animation (sample_node 0 Quarantined 9))) = 3/10"
    "ypos (fst (updateAnimation 0 sample_animation (sample_node 0 Quarantined 9))) = 6/10"
    by (simp_all add: sample_animation_sel)
  from C7_cubic_ease_out [of 0 1000 sample_animation "sample_node 0 Quarantined 9" 250 500] p1
  have b: "xpos (fst (updateAnimation 1000 sample_animation (sample_node 0 Quarantined 9))) = 8/10"
    "ypos (fst (updateAnimation 1000 sample_animation (sample_node 0 Quarantined 9))) = 1/10"
    by (simp_all add: sample_animation_sel)
  from C7_cubic_ease_out [of 0 0 sample_animation "sample_node 0 Quarantined 9" 250 500] p2 d
  have c: "xpos (fst (updateAnimation 250 sample_animation (sample_node 0 Quarantined 9)))
       \<le> xpos (fst (updateAnimation 500 sample_animation (sample_node 0 Quarantined 9)))"
    "ypos (fst (updateAnimation 500 sample_animation (sample_node 0 Quarantined 9)))
       \<le> ypos (fst (updateAnimation 250 sample_animation (sample_node 0 Quarantined 9)))"
    by blast+
  from p0 p1 p2 a b c show ?thesis by (intro conjI)
qed

lemma node_loop_constant:
  "snd (node_loop i ns (constant_draws c)) = constant_draws c"
proof (induction i ns "constant_draws c" rule: node_loop.induct)
  case (1 i ns)
  show ?case
  proof (cases "i < nodeCount")
    case True
    from "1.hyps" [OF True] True show ?thesis
      by (subst node_loop.simps) (simp add: constant_draws_simps)
  next
    case False
    then show ?thesis by (subst node_loop.simps) simp
  qed
qed

lemma out_edges_edge_loop:
  "\<forall>e\<in>set es. source e < i \<Longrightarrow> j < i \<Longrightarrow> unit_draws g
     \<Longrightarrow> out_edges j (fst (edge_loop i es g)) = out_edges j es"
proof (induction i es g rule: edge_loop.induct)
  case (1 i es g)
  show ?case
  proof (cases "i < nodeCount")
    case True
    from connect_node_props [OF "1.prems"(3), of i es]
    obtain new where n: "fst (snd (connect_node i es g)) = es @ new"
      and p: "\<forall>e\<in>set new. source e = i \<and> target e \<noteq> i \<and> target e < nodeCount"
      and u: "unit_draws (snd (snd (connect_node i es g)))"
      by blast
    have a: "\<forall>e\<in>set (fst (snd (connect_node i es g))). source e < i + 1"
      using "1.prems"(1) p by (auto simp: n)
    have b: "j < i + 1" using "1.prems"(2) by simp
    have c: "out_edges j (es @ new) = out_edges j es"
      using p "1.prems"(2) by (auto simp: out_edges_def filter_empty_conv)
    from "1.IH" [OF True a b u] c True show ?thesis
      by (subst edge_loop.simps) (simp add: n)
  next
    case False
    then show ?thesis by (subst edge_loop.simps) simp
  qed
qed

lemma connect_node_constant_0:
  "numConnections (constant_draws 0) = 3"
  "connect_node 0 [] (constant_draws 0) = ({}, [], constant_draws 0)"
  by (simp_all add: numConnections_def connect_node_def constant_draws_simps eval_nat_numeral)

text \<open>
  When every draw is 0, node 0 draws out-degree 3, all three target draws hit node 0
  itself, and the node ends with no out-edge at all.
\<close>

theorem C8_counterexample:
  "numConnections (snd (node_loop 0 [] (constant_draws 0))) = 3
   \<and> out_edges 0 (edges (createFallbackNetwork
                           ((sample_world [] [])\<lparr>random_source := constant_draws 0\<rparr>))) = []"
proof -
  have z: "0 < nodeCount" by (simp add: nodeCount_def)
  have u: "unit_draws (constant_draws 0)" by (simp add: unit_draws_constant)
  have "edge_loop 0 [] (constant_draws 0) = edge_loop 1 [] (constant_draws 0)"
    using z by (subst edge_loop.simps) (simp add: connect_node_constant_0)
  moreover have "out_edges 0 (fst (edge_loop 1 [] (constant_draws 0))) = out_edges 0 []"
    by (rule out_edges_edge_loop) (simp_all add: u)
  ultimately have "out_edges 0 (fst (edge_loop 0 [] (constant_draws 0))) = []"
    by (simp add: out_edges_def)
  then show ?thesis
    by (simp add: createFallbackNetwork_def Let_def node_loop_constant connect_node_constant_0)
qed

lemma rng_skip_constant: "rng_skip n (constant_draws c) = constant_draws c"
  by (simp add: rng_skip_def constant_draws_def)

lemma node_rng_constant: "node_rng k (constant_draws c) = constant_draws c"
  by (induction k) (simp_all add: rng_skip_constant)

lemma unit_draws_sample: "unit_draws sample_draws"
proof -
  have "real (k mod 7) / 10 < 1" for k :: nat
  proof -
    have "k mod 7 < 7" by simp
    then have "real (k mod 7) < 10" by linarith
    then show ?thesis by simp
  qed
  then show ?thesis by (simp add: unit_draws_def sample_draws_def)
qed

lemma sample_draws_values:
  "numConnections sample_draws = 3"
  "target_draws (rng_next sample_draws) (numConnections sample_draws) = [50, 100, 150]"
proof -
  show n: "numConnections sample_draws = 3"
    by (simp add: numConnections_def Math_random_def sample_draws_def)
  have "[0..<3] = [0, 1, 2::nat]" by (simp add: upt_rec)
  then have "target_draws (rng_next sample_draws) 3 = [50, 100, 150]"
    by (simp add: target_draws_def rng_next_def sample_draws_def nodeCount_def)
  then show "target_draws (rng_next sample_draws) (numConnections sample_draws) = [50, 100, 150]"
    by (simp only: n)
qed

lemma constant_half_edges:
  "drawn_edges 7 (constant_draws (1/2)) = [\<lparr>source = 7, target = 250\<rparr>]"
proof -
  have n: "numConnections (constant_draws (1/2)) = 4"
    by (simp add: numConnections_def constant_draws_simps)
  have "[0..<4] = [0, 1, 2, 3::nat]" by (simp add: upt_rec)
  then have "target_draws (rng_next (constant_draws (1/2))) 4 = [250, 250, 250, 250]"
    unfolding constant_draws_simps(1)
    by (simp add: target_draws_def constant_draws_def nodeCount_def)
  then show ?thesis
    by (simp add: drawn_edges_def n first_occurrences_def)
qed

text \<open>
  The theorem of claim C8 at concrete inputs: with the draws 0, 1/10, 2/10, 3/10 node 7
  draws out-degree 3 and the targets 50, 100 and 150 and adds exactly these three edges;
  in the network built from draws that are all 1/2, node 7 has the single out-edge to
  node 250.
\<close>

theorem C8_witness:
  "unit_draws sample_draws
   \<and> unit_draws (random_source (sample_world [] []))
   \<and> numConnections sample_draws = 3
   \<and> fst (snd (connect_node 7 [] sample_draws))
        = [\<lparr>source = 7, target = 50\<rparr>, \<lparr>source = 7, target = 100\<rparr>, \<lparr>source = 7, target = 150\<rparr>]
   \<and> length (drawn_edges 7 sample_draws) = numConnections sample_draws
   \<and> length (nodes (createFallbackNetwork (sample_world [] []))) = 500
   \<and> out_edges 7 (edges (createFallbackNetwork (sample_world [] [])))
        = [\<lparr>source = 7, target = 250\<rparr>]"
proof -
  have u: "unit_draws sample_draws" by (rule unit_draws_sample)
  have u': "unit_draws (random_source (sample_world [] []))"
    by (simp add: sample_world_sel unit_draws_constant)
  note t = C8_out_edges [OF u u', of 7 "[]"]
  have dist: "distinct (target_draws (rng_next sample_draws) (numConnections sample_draws))
      \<and> 7 \<notin> set (target_draws (rng_next sample_draws) (numConnections sample_draws))"
    unfolding sample_draws_values(2) by simp
  from t dist
  have l: "length (drawn_edges 7 sample_draws) = numConnections sample_draws"
    by blast
  have de: "drawn_edges 7 sample_draws
      = [\<lparr>source = 7, target = 50\<rparr>, \<lparr>source = 7, target = 100\<rparr>, \<lparr>source = 7, target = 150\<rparr>]"
    unfolding drawn_edges_def sample_draws_values(2) by (simp add: first_occurrences_def)
  from t have "fst (snd (connect_node 7 [] sample_draws)) = [] @ drawn_edges 7 sample_draws"
    by simp
  then have cn: "fst (snd (connect_node 7 [] sample_draws))
      = [\<lparr>source = 7, target = 50\<rparr>, \<lparr>source = 7, target = 100\<rparr>, \<lparr>source = 7, target = 150\<rparr>]"
    by (simp add: de)
  have "7 < nodeCount" by (simp add: nodeCount_def)
  with t have "out_edges 7 (edges (createFallbackNetwork (sample_world [] [])))
      = drawn_edges 7 (node_rng 7 (rng_skip (2 * nodeCount) (random_source (sample_world [] []))))"
    by blast
  then have oe: "out_edges 7 (edges (createFallbackNetwork (sample_world [] [])))
      = [\<lparr>source = 7, target = 250\<rparr>]"
    by (simp add: sample_world_sel rng_skip_constant node_rng_constant constant_half_edges)
  from t have nn: "length (nodes (createFallbackNetwork (sample_world [] []))) = 500"
    by (simp add: nodeCount_def)
  show ?thesis
    by (intro conjI u u' sample_draws_values(1) cn l nn oe)
qed

end
